theory Spec2Isabelle
  imports Complex_Main "HOL-Library.Word" "HOL-Library.Sublist"
begin

section \<open>Python values, exceptions and strings\<close>

text \<open>
  The program is one Python module, \<^verbatim>\<open>streamlit_app.py\<close>. It walks the object graph
  that the presentation library builds (slides, shapes, text frames, tables) and writes
  rows to a CSV writer. Every object is modelled as a record of the attributes the module
  reads from it. An attribute read that may raise is a value of type \<open>py_exn + 'a\<close>
  (\<open>Inl\<close> the exception); a sequence of reads is threaded with \<open>and_then\<close>, which
  stops at the first exception, as Python does.
\<close>

datatype py_exn =
  AttributeError | NotImplementedError | TypeError | ValueError | PackageNotFoundError

type_synonym 'a attr = "py_exn + 'a"

definition and_then :: "py_exn + 'a \<Rightarrow> ('a \<Rightarrow> py_exn + 'b) \<Rightarrow> py_exn + 'b" where
  "and_then m f = (case m of Inl e \<Rightarrow> Inl e | Inr v \<Rightarrow> f v)"

text \<open>
  Python 3's \<^verbatim>\<open>hasattr(obj, name)\<close> reads the attribute and answers \<^verbatim>\<open>False\<close> on
  \<^verbatim>\<open>AttributeError\<close> only; any other exception of the read propagates.
\<close>

definition hasattr :: "'a attr \<Rightarrow> py_exn + bool" where
  "hasattr a = (case a of Inr _ \<Rightarrow> Inr True
                | Inl AttributeError \<Rightarrow> Inr False
                | Inl e \<Rightarrow> Inl e)"

text \<open>Short-circuit \<^verbatim>\<open>and\<close> and \<^verbatim>\<open>or\<close> on operands that may raise.\<close>

definition py_and :: "py_exn + bool \<Rightarrow> py_exn + bool \<Rightarrow> py_exn + bool" where
  "py_and a b = and_then a (\<lambda>x. if x then b else Inr False)"

definition py_or :: "py_exn + bool \<Rightarrow> py_exn + bool \<Rightarrow> py_exn + bool" where
  "py_or a b = and_then a (\<lambda>x. if x then Inr True else b)"

text \<open>
  Text is a \<open>string\<close>: a list of characters, each a code point below 256.
  \<^verbatim>\<open>str.strip()\<close> removes leading and trailing whitespace; below 256 the whitespace
  code points of Python are 9 to 13, 28 to 32, 133 and 160.
\<close>

definition is_space :: "char \<Rightarrow> bool" where
  "is_space c = (of_char c \<in> {9, 10, 11, 12, 13, 28, 29, 30, 31, 32, 133, 160 :: nat})"

definition strip :: "string \<Rightarrow> string" where
  "strip s = rev (dropWhile is_space (rev (dropWhile is_space s)))"

text \<open>\<^verbatim>\<open>sep.join(parts)\<close>.\<close>

fun join :: "string \<Rightarrow> string list \<Rightarrow> string" where
  "join sep [] = []"
| "join sep [p] = p"
| "join sep (p # q # ps) = p @ sep @ join sep (q # ps)"

text \<open>Decimal rendering of a Python int, as \<^verbatim>\<open>str\<close> and an f-string field produce it.\<close>

definition digit_char :: "nat \<Rightarrow> char" where
  "digit_char d = char_of (48 + d)"

function str_nat :: "nat \<Rightarrow> string" where
  "str_nat n = (if n < 10 then [digit_char n] else str_nat (n div 10) @ [digit_char (n mod 10)])"
  by pat_completeness auto
termination
  by (relation "measure id") auto

declare str_nat.simps [simp del]

definition str_int :: "int \<Rightarrow> string" where
  "str_int i = (if i < 0 then CHR ''-'' # str_nat (nat (- i)) else str_nat (nat i))"

text \<open>
  A member of one of the library's enumerations, formatted by an f-string: the library
  prints it as its name followed by its value in brackets, as in \<^verbatim>\<open>DARK_2 (3)\<close>.
\<close>

definition py_format_member :: "string \<times> int \<Rightarrow> string" where
  "py_format_member m = fst m @ '' ('' @ str_int (snd m) @ '')''"

text \<open>
  A float is represented by its exact value, a rational. The format \<^verbatim>\<open>.2f\<close> prints the
  value rounded to the nearest multiple of 0.01, a tie going to the even neighbour, with
  a minus sign whenever the value is negative and with two digits after the point.
\<close>

definition round_half_even :: "rat \<Rightarrow> nat" where
  "round_half_even x =
     (let q = nat \<lfloor>x\<rfloor>; r = x - of_int \<lfloor>x\<rfloor>
      in if r < 1 / 2 then q
         else if 1 / 2 < r then Suc q
         else if even q then q else Suc q)"

definition format_2f :: "rat \<Rightarrow> string" where
  "format_2f x =
     (let n = round_half_even (\<bar>x\<bar> * 100)
      in (if x < 0 then ''-'' else '''') @ str_nat (n div 100) @ ''.''
         @ [digit_char (n mod 100 div 10), digit_char (n mod 10)])"

section \<open>The object graph of a presentation\<close>

text \<open>
  \<^verbatim>\<open>MSO_SHAPE_TYPE\<close> and \<^verbatim>\<open>MSO_FILL_TYPE\<close> belong to the presentation library, not to
  this module. The shape-kind enumeration is a parameter of every function that consults
  it: the list of its members in iteration order, each a name and an integer value.
  \<^verbatim>\<open>hasattr(MSO_SHAPE_TYPE, 'X')\<close> is \<open>has_member E ''X''\<close> and
  \<^verbatim>\<open>MSO_SHAPE_TYPE.X\<close> is the value \<open>map_of E ''X''\<close> finds.
\<close>

type_synonym enumeration = "(string \<times> int) list"

definition has_member :: "enumeration \<Rightarrow> string \<Rightarrow> bool" where
  "has_member E n = (map_of E n \<noteq> None)"

datatype mso_fill_type =
  SOLID | GRADIENT | PICTURE | GROUP | BACKGROUND | PATTERNED | TEXTURED

text \<open>
  A colour: \<^verbatim>\<open>rgb\<close> is three components, each one byte, or \<^verbatim>\<open>None\<close>;
  \<^verbatim>\<open>brightness\<close> is a float, given by its exact value.

  \<^verbatim>\<open>theme_color\<close> is a member of the library's enumeration of theme colours, given
  by its name and its value, or \<^verbatim>\<open>None\<close>.
\<close>

record color_format =
  rgb :: "(8 word \<times> 8 word \<times> 8 word) option attr"
  theme_color :: "(string \<times> int) option attr"
  brightness :: "rat attr"

record fill_format =
  fill_type :: "mso_fill_type option attr"
  fore_color :: "color_format attr"

record run =
  run_text :: string

record text_paragraph =
  paragraph_text :: string
  runs :: "run list"

record text_frame =
  paragraphs :: "text_paragraph list"

record cell =
  cell_text :: string
  cell_text_frame :: text_frame

record table_row =
  cells :: "cell list"

record table =
  rows :: "table_row list"

record shape =
  shape_id :: int
  name :: "string option"
  shape_type :: "int option attr"
  fill :: "fill_format attr"
  shape_left :: "int option attr"
  shape_top :: "int option attr"
  shape_width :: "int option attr"
  shape_height :: "int option attr"
  has_text_frame :: bool
  text_frame :: "text_frame attr"
  table :: "table attr"

record slide =
  shapes :: "shape list"

record presentation =
  slides :: "slide list"

text \<open>
  An uploaded file is given by what the library's loader \<^verbatim>\<open>Presentation(uploaded_file)\<close>
  makes of its bytes read from offset 0: a presentation, or an exception.
\<close>

type_synonym uploaded_file = "py_exn + presentation"

section \<open>Shape-kind tests\<close>

text \<open>
  \<^verbatim>\<open>hasattr(MSO_SHAPE_TYPE, n) and shape.shape_type == MSO_SHAPE_TYPE.n\<close>: the shape's
  kind is read only when the member exists.
\<close>

definition type_is_member :: "enumeration \<Rightarrow> string \<Rightarrow> shape \<Rightarrow> py_exn + bool" where
  "type_is_member E n sh =
     py_and (Inr (has_member E n)) (and_then (shape_type sh) (\<lambda>st. Inr (st = map_of E n)))"

text \<open>\<^verbatim>\<open>shape.shape_type == k\<close> for a literal \<open>k\<close>.\<close>

definition type_is_code :: "int \<Rightarrow> shape \<Rightarrow> py_exn + bool" where
  "type_is_code k sh = and_then (shape_type sh) (\<lambda>st. Inr (st = Some k))"

text \<open>Lines 90-91 and 137-138: the connector/line test.\<close>

definition is_line :: "enumeration \<Rightarrow> shape \<Rightarrow> py_exn + bool" where
  "is_line E sh =
     py_or (type_is_member E ''LINE'' sh)
           (py_and (Inr (\<not> has_member E ''LINE'')) (type_is_code 13 sh))"

text \<open>Lines 62-63 and 101-102: the table test.\<close>

definition is_table :: "enumeration \<Rightarrow> shape \<Rightarrow> py_exn + bool" where
  "is_table E sh =
     py_or (type_is_member E ''TABLE'' sh)
           (py_and (Inr (\<not> has_member E ''TABLE'')) (type_is_code 19 sh))"

section \<open>Fill-colour classifier\<close>

definition fill_type_map :: "(mso_fill_type \<times> string) list" where
  "fill_type_map =
     [(SOLID, ''Solid Fill''), (GRADIENT, ''Gradient Fill''),
      (PICTURE, ''Picture Fill''), (GROUP, ''Group Fill''),
      (BACKGROUND, ''Background Fill''), (PATTERNED, ''Patterned Fill''),
      (TEXTURED, ''Textured Fill'')]"

text \<open>Lines 41-47: the colour of a solid fill; \<open>color_info\<close> holds \<^verbatim>\<open>"Solid Fill"\<close> on entry.\<close>

definition solid_color_info :: "string \<Rightarrow> fill_format \<Rightarrow> py_exn + string" where
  "solid_color_info color_info f =
     and_then (fore_color f) (\<lambda>color.
     and_then (py_and (hasattr (rgb color))
                      (and_then (rgb color) (\<lambda>v. Inr (v \<noteq> None)))) (\<lambda>has_rgb.
       if has_rgb then
         and_then (rgb color) (\<lambda>rgb_val.
           case rgb_val of
             None \<Rightarrow> Inl TypeError
           | Some (r0, r1, r2) \<Rightarrow>
               Inr (''RGB('' @ str_nat (unat r0) @ '','' @ str_nat (unat r1) @ '',''
                    @ str_nat (unat r2) @ '')''))
       else
         and_then (py_and (hasattr (theme_color color))
                          (and_then (theme_color color) (\<lambda>v. Inr (v \<noteq> None)))) (\<lambda>has_theme.
           if has_theme then
             and_then (brightness color) (\<lambda>b.
             and_then (theme_color color) (\<lambda>tc.
               case tc of
                 None \<Rightarrow> Inl TypeError
               | Some t \<Rightarrow>
                   Inr (''ThemeColor(Type:'' @ py_format_member t @ '', Brightness:''
                        @ format_2f b @ '')'')))
           else Inr color_info)))"

text \<open>Lines 32-47: the body of the \<^verbatim>\<open>try\<close>; \<open>color_info\<close> holds \<^verbatim>\<open>"No Fill"\<close> on entry.\<close>

definition inspect_fill :: "fill_format \<Rightarrow> py_exn + string" where
  "inspect_fill f =
     and_then (fill_type f) (\<lambda>t.
       case t of
         None \<Rightarrow> Inr ''No Fill''
       | Some ft \<Rightarrow>
           (case map_of fill_type_map ft of
              None \<Rightarrow> Inr ''No Fill''
            | Some label \<Rightarrow>
                if ft = SOLID then solid_color_info label f else Inr label))"

text \<open>
  Lines 18-50. The test of line 18 and the reads of \<^verbatim>\<open>shape.shape_type\<close> in lines 19-25
  are outside the \<^verbatim>\<open>try\<close>: an exception there leaves the function. An exception inside
  the \<^verbatim>\<open>try\<close> is replaced by the error string.
\<close>

definition get_shape_fill_color_info :: "enumeration \<Rightarrow> shape \<Rightarrow> py_exn + string" where
  "get_shape_fill_color_info E sh =
     and_then (hasattr (fill sh)) (\<lambda>has_fill.
       if \<not> has_fill then
         and_then (type_is_member E ''TABLE'' sh) (\<lambda>is_tbl.
           if is_tbl then Inr ''Table Container (Fill N/A)''
           else
             and_then (type_is_member E ''CHART'' sh) (\<lambda>is_chart.
               if is_chart then Inr ''Chart Container (Fill N/A)''
               else
                 and_then (py_or (type_is_member E ''GRAPHIC_FRAME'' sh) (type_is_code 6 sh))
                   (\<lambda>is_other_graphic_frame.
                     if is_other_graphic_frame then Inr ''Graphic Frame (Fill N/A)''
                     else Inr ''Fill Attribute Missing / Other Type'')))
       else
         and_then (fill sh) (\<lambda>f.
           Inr (case inspect_fill f of
                  Inl e \<Rightarrow> ''Fill Info Error (General)''
                | Inr color_info \<Rightarrow> color_info)))"

section \<open>Text concatenator\<close>

text \<open>
  Lines 57-68 build the local list \<^verbatim>\<open>text_parts\<close>; each loop appends to it.
\<close>

fun paragraph_parts :: "text_paragraph list \<Rightarrow> string list \<Rightarrow> string list" where
  "paragraph_parts [] text_parts = text_parts"
| "paragraph_parts (p # ps) text_parts =
     paragraph_parts ps
       (if strip (paragraph_text p) \<noteq> [] then text_parts @ [strip (paragraph_text p)]
        else text_parts)"

fun cell_parts :: "cell list \<Rightarrow> string list \<Rightarrow> string list" where
  "cell_parts [] text_parts = text_parts"
| "cell_parts (c # cs) text_parts =
     cell_parts cs
       (if strip (cell_text c) \<noteq> [] then text_parts @ [strip (cell_text c)]
        else text_parts)"

fun row_parts :: "table_row list \<Rightarrow> string list \<Rightarrow> string list" where
  "row_parts [] text_parts = text_parts"
| "row_parts (r # rs) text_parts = row_parts rs (cell_parts (cells r) text_parts)"

definition shape_text_parts :: "enumeration \<Rightarrow> shape \<Rightarrow> py_exn + string list" where
  "shape_text_parts E sh =
     and_then (if has_text_frame sh
               then and_then (text_frame sh) (\<lambda>tf. Inr (paragraph_parts (paragraphs tf) []))
               else Inr []) (\<lambda>text_parts.
     and_then (is_table E sh) (\<lambda>is_tbl.
       if is_tbl
       then and_then (table sh) (\<lambda>tb. Inr (row_parts (rows tb) text_parts))
       else Inr text_parts))"

definition get_all_text_from_shape :: "enumeration \<Rightarrow> shape \<Rightarrow> py_exn + string" where
  "get_all_text_from_shape E sh =
     and_then (shape_text_parts E sh) (\<lambda>text_parts. Inr (join '' | '' text_parts))"

section \<open>Rows and the CSV writer\<close>

text \<open>
  A row handed to the writer is the list of its Python values. The output buffer is the
  list of the rows written so far, the header first.
\<close>

datatype csv_value = VInt int | VBool bool | VNone | VStr string

type_synonym csv_row = "csv_value list"

definition text_headers :: "string list" where
  "text_headers =
     [''slide_index'', ''shape_id'', ''is_table_cell'', ''cell_row_index'',
      ''cell_col_index'', ''paragraph_index'', ''run_index'', ''text'']"

definition csv_headers :: "string list" where
  "csv_headers =
     [''slide_index'', ''shape_id'', ''shape_name'', ''shape_type'', ''color'',
      ''x_coordinate_emu'', ''y_coordinate_emu'', ''width_emu'', ''height_emu'', ''text'']"

section \<open>Text-run extractor\<close>

text \<open>
  The loops of lines 96-100 and 103-109, innermost first. Each takes the index
  \<^verbatim>\<open>enumerate\<close> has reached and the output buffer, and returns the buffer. \<open>mk\<close>
  builds the row from the indices of the enclosing loops.
\<close>

fun write_runs :: "(nat \<Rightarrow> string \<Rightarrow> csv_row) \<Rightarrow> nat \<Rightarrow> run list \<Rightarrow> csv_row list \<Rightarrow> csv_row list" where
  "write_runs mk run_idx [] out = out"
| "write_runs mk run_idx (r # rs) out =
     write_runs mk (Suc run_idx) rs
       (if strip (run_text r) \<noteq> [] then out @ [mk run_idx (strip (run_text r))] else out)"

fun write_paragraphs ::
  "(nat \<Rightarrow> nat \<Rightarrow> string \<Rightarrow> csv_row) \<Rightarrow> nat \<Rightarrow> text_paragraph list \<Rightarrow> csv_row list \<Rightarrow> csv_row list" where
  "write_paragraphs mk para_idx [] out = out"
| "write_paragraphs mk para_idx (p # ps) out =
     write_paragraphs mk (Suc para_idx) ps (write_runs (mk para_idx) 0 (runs p) out)"

fun write_cells ::
  "(nat \<Rightarrow> nat \<Rightarrow> nat \<Rightarrow> string \<Rightarrow> csv_row) \<Rightarrow> nat \<Rightarrow> cell list \<Rightarrow> csv_row list \<Rightarrow> csv_row list" where
  "write_cells mk c_idx [] out = out"
| "write_cells mk c_idx (c # cs) out =
     write_cells mk (Suc c_idx) cs
       (write_paragraphs (mk c_idx) 0 (paragraphs (cell_text_frame c)) out)"

fun write_table_rows ::
  "(nat \<Rightarrow> nat \<Rightarrow> nat \<Rightarrow> nat \<Rightarrow> string \<Rightarrow> csv_row) \<Rightarrow> nat \<Rightarrow> table_row list \<Rightarrow> csv_row list
     \<Rightarrow> csv_row list" where
  "write_table_rows mk r_idx [] out = out"
| "write_table_rows mk r_idx (r # rs) out =
     write_table_rows mk (Suc r_idx) rs (write_cells (mk r_idx) 0 (cells r) out)"

text \<open>The rows of lines 100 and 108.\<close>

definition frame_row :: "nat \<Rightarrow> int \<Rightarrow> nat \<Rightarrow> nat \<Rightarrow> string \<Rightarrow> csv_row" where
  "frame_row slide_idx sid para_idx run_idx t =
     [VInt (int slide_idx), VInt sid, VBool False, VNone, VNone,
      VInt (int para_idx), VInt (int run_idx), VStr t]"

definition cell_row :: "nat \<Rightarrow> int \<Rightarrow> nat \<Rightarrow> nat \<Rightarrow> nat \<Rightarrow> nat \<Rightarrow> string \<Rightarrow> csv_row" where
  "cell_row slide_idx sid r_idx c_idx para_idx run_idx t =
     [VInt (int slide_idx), VInt sid, VBool True, VInt (int r_idx), VInt (int c_idx),
      VInt (int para_idx), VInt (int run_idx), VStr t]"

text \<open>Lines 90-109: the body of the loop over the shapes of a slide.\<close>

definition text_details_of_shape ::
  "enumeration \<Rightarrow> nat \<Rightarrow> shape \<Rightarrow> csv_row list \<Rightarrow> py_exn + csv_row list" where
  "text_details_of_shape E slide_idx sh out =
     and_then (is_line E sh) (\<lambda>skip.
       if skip then Inr out
       else
         and_then (if has_text_frame sh
                   then and_then (text_frame sh) (\<lambda>tf.
                          Inr (write_paragraphs (frame_row slide_idx (shape_id sh)) 0
                                 (paragraphs tf) out))
                   else Inr out) (\<lambda>out1.
         and_then (is_table E sh) (\<lambda>is_tbl.
           if is_tbl
           then and_then (table sh) (\<lambda>tb.
                  Inr (write_table_rows (cell_row slide_idx (shape_id sh)) 0 (rows tb) out1))
           else Inr out1)))"

fun text_details_of_shapes ::
  "enumeration \<Rightarrow> nat \<Rightarrow> shape list \<Rightarrow> csv_row list \<Rightarrow> py_exn + csv_row list" where
  "text_details_of_shapes E slide_idx [] out = Inr out"
| "text_details_of_shapes E slide_idx (sh # shs) out =
     and_then (text_details_of_shape E slide_idx sh out)
       (text_details_of_shapes E slide_idx shs)"

fun text_details_of_slides ::
  "enumeration \<Rightarrow> nat \<Rightarrow> slide list \<Rightarrow> csv_row list \<Rightarrow> py_exn + csv_row list" where
  "text_details_of_slides E slide_idx [] out = Inr out"
| "text_details_of_slides E slide_idx (s # ss) out =
     and_then (text_details_of_shapes E slide_idx (shapes s) out)
       (text_details_of_slides E (Suc slide_idx) ss)"

text \<open>
  Lines 79-115. The \<^verbatim>\<open>try\<close> holds the load, the header and the walk; the handler
  returns \<^verbatim>\<open>None\<close>, whatever the buffer holds by then. Otherwise the function returns
  the buffer.
\<close>

definition generate_text_details_tsv :: "enumeration \<Rightarrow> uploaded_file \<Rightarrow> csv_row list option" where
  "generate_text_details_tsv E uploaded_file =
     (case and_then uploaded_file (\<lambda>prs.
             text_details_of_slides E 0 (slides prs) [map VStr text_headers])
      of Inl e \<Rightarrow> None
       | Inr out \<Rightarrow> Some out)"

section \<open>Shape-summary extractor\<close>

text \<open>
  Lines 141-142: the name of the first member whose value is the shape's kind, and
  otherwise the kind itself, formatted by the f-string, between brackets.
\<close>

definition py_format_kind :: "int option \<Rightarrow> string" where
  "py_format_kind st = (case st of None \<Rightarrow> ''None'' | Some k \<Rightarrow> str_int k)"

definition shape_type_str :: "enumeration \<Rightarrow> shape \<Rightarrow> py_exn + string" where
  "shape_type_str E sh =
     and_then (shape_type sh) (\<lambda>st.
       Inr (case find (\<lambda>m. Some (snd m) = st) E of
              Some m \<Rightarrow> fst m
            | None \<Rightarrow> ''Unknown ('' @ py_format_kind st @ '')''))"

text \<open>\<^verbatim>\<open>shape.left if hasattr(shape, 'left') else 'N/A'\<close>, and likewise for the other three.\<close>

definition emu_or_na :: "int option attr \<Rightarrow> py_exn + csv_value" where
  "emu_or_na a =
     and_then (hasattr a) (\<lambda>h.
       if h then and_then a (\<lambda>v. Inr (case v of None \<Rightarrow> VNone | Some n \<Rightarrow> VInt n))
       else Inr (VStr ''N/A''))"

text \<open>\<^verbatim>\<open>shape.name or "Unnamed Shape"\<close>: \<^verbatim>\<open>None\<close> and the empty string are both falsy.\<close>

definition name_or_default :: "string option \<Rightarrow> string" where
  "name_or_default n =
     (case n of None \<Rightarrow> ''Unnamed Shape''
      | Some s \<Rightarrow> if s = [] then ''Unnamed Shape'' else s)"

text \<open>Lines 141-153: the dictionary built for one shape, its entries in evaluation order.\<close>

definition shape_details :: "enumeration \<Rightarrow> nat \<Rightarrow> shape \<Rightarrow> py_exn + (string \<times> csv_value) list" where
  "shape_details E slide_idx sh =
     and_then (shape_type_str E sh) (\<lambda>type_str.
     and_then (get_shape_fill_color_info E sh) (\<lambda>color.
     and_then (emu_or_na (shape_left sh)) (\<lambda>x.
     and_then (emu_or_na (shape_top sh)) (\<lambda>y.
     and_then (emu_or_na (shape_width sh)) (\<lambda>w.
     and_then (emu_or_na (shape_height sh)) (\<lambda>h.
     and_then (get_all_text_from_shape E sh) (\<lambda>txt.
       Inr [(''slide_index'', VInt (int slide_idx)), (''shape_id'', VInt (shape_id sh)),
            (''shape_name'', VStr (name_or_default (name sh))),
            (''shape_type'', VStr type_str), (''color'', VStr color),
            (''x_coordinate_emu'', x), (''y_coordinate_emu'', y),
            (''width_emu'', w), (''height_emu'', h), (''text'', VStr txt)])))))))"

text \<open>Lines 136-153: the loops, appending to \<^verbatim>\<open>shape_details_list\<close>.\<close>

fun shape_details_of_shapes ::
  "enumeration \<Rightarrow> nat \<Rightarrow> shape list \<Rightarrow> (string \<times> csv_value) list list
     \<Rightarrow> py_exn + (string \<times> csv_value) list list" where
  "shape_details_of_shapes E slide_idx [] shape_details_list = Inr shape_details_list"
| "shape_details_of_shapes E slide_idx (sh # shs) shape_details_list =
     and_then (is_line E sh) (\<lambda>skip.
       if skip then shape_details_of_shapes E slide_idx shs shape_details_list
       else
         and_then (shape_details E slide_idx sh) (\<lambda>d.
           shape_details_of_shapes E slide_idx shs (shape_details_list @ [d])))"

fun shape_details_of_slides ::
  "enumeration \<Rightarrow> nat \<Rightarrow> slide list \<Rightarrow> (string \<times> csv_value) list list
     \<Rightarrow> py_exn + (string \<times> csv_value) list list" where
  "shape_details_of_slides E slide_idx [] shape_details_list = Inr shape_details_list"
| "shape_details_of_slides E slide_idx (s # ss) shape_details_list =
     and_then (shape_details_of_shapes E slide_idx (shapes s) shape_details_list)
       (shape_details_of_slides E (Suc slide_idx) ss)"

text \<open>
  \<^verbatim>\<open>DictWriter.writerows\<close>: each dictionary becomes the row of its values in the order
  of the field names; a missing key gives the empty string.
\<close>

definition dict_row :: "string list \<Rightarrow> (string \<times> csv_value) list \<Rightarrow> csv_row" where
  "dict_row fieldnames d =
     map (\<lambda>k. case map_of d k of None \<Rightarrow> VStr [] | Some v \<Rightarrow> v) fieldnames"

text \<open>
  Lines 123-162. The header is written before the \<^verbatim>\<open>try\<close>; the rows are written
  after the walk, inside it. The handler returns \<^verbatim>\<open>None\<close>.
\<close>

definition generate_combined_shape_details_tsv ::
  "enumeration \<Rightarrow> uploaded_file \<Rightarrow> csv_row list option" where
  "generate_combined_shape_details_tsv E uploaded_file =
     (case and_then uploaded_file (\<lambda>prs.
             and_then (shape_details_of_slides E 0 (slides prs) []) (\<lambda>shape_details_list.
               Inr (map VStr csv_headers # map (dict_row csv_headers) shape_details_list)))
      of Inl e \<Rightarrow> None
       | Inr out \<Rightarrow> Some out)"

section \<open>Example objects\<close>

text \<open>
  The shape-kind enumeration as the presentation library documents it, in the order of
  its members. It has no member \<^verbatim>\<open>GRAPHIC_FRAME\<close>, and its value 6 is \<^verbatim>\<open>GROUP\<close>.
  The theorems that take an enumeration \<open>E\<close> hold for every enumeration; this one
  instantiates them.
\<close>

definition MSO_SHAPE_TYPE :: enumeration where
  "MSO_SHAPE_TYPE =
     [(''AUTO_SHAPE'', 1), (''CALLOUT'', 2), (''CANVAS'', 20), (''CHART'', 3),
      (''COMMENT'', 4), (''DIAGRAM'', 21), (''EMBEDDED_OLE_OBJECT'', 7),
      (''FORM_CONTROL'', 8), (''FREEFORM'', 5), (''GROUP'', 6), (''IGX_GRAPHIC'', 24),
      (''INK'', 22), (''INK_COMMENT'', 23), (''LINE'', 9), (''LINKED_OLE_OBJECT'', 10),
      (''LINKED_PICTURE'', 11), (''MEDIA'', 16), (''OLE_CONTROL_OBJECT'', 12),
      (''PICTURE'', 13), (''PLACEHOLDER'', 14), (''SCRIPT_ANCHOR'', 18), (''TABLE'', 19),
      (''TEXT_BOX'', 17), (''TEXT_EFFECT'', 15), (''WEB_VIDEO'', 26), (''MIXED'', - 2)]"

text \<open>
  A shape of kind \<open>k\<close> with identifier \<open>i\<close> that has no fill attribute, no text frame
  and no table, placed at the origin with no extent.
\<close>

definition bare_shape :: "int \<Rightarrow> int option attr \<Rightarrow> shape" where
  "bare_shape i k =
     \<lparr>shape_id = i, name = Some ''Shape'', shape_type = k, fill = Inl AttributeError,
      shape_left = Inr (Some 0), shape_top = Inr (Some 0),
      shape_width = Inr (Some 0), shape_height = Inr (Some 0),
      has_text_frame = False, text_frame = Inl AttributeError, table = Inl AttributeError\<rparr>"

text \<open>A paragraph of one run, a text frame of one paragraph, and the cells of a table.\<close>

definition one_run_paragraph :: "string \<Rightarrow> text_paragraph" where
  "one_run_paragraph t = \<lparr>paragraph_text = t, runs = [\<lparr>run_text = t\<rparr>]\<rparr>"

definition text_cell :: "string \<Rightarrow> cell" where
  "text_cell t = \<lparr>cell_text = t, cell_text_frame = \<lparr>paragraphs = [one_run_paragraph t]\<rparr>\<rparr>"

definition empty_cell :: cell where
  "empty_cell =
     \<lparr>cell_text = [], cell_text_frame = \<lparr>paragraphs = [\<lparr>paragraph_text = [], runs = []\<rparr>]\<rparr>\<rparr>"

text \<open>The table of two rows and two columns with "A" at (0,0) and "B" at (1,1).\<close>

definition table_2x2 :: table where
  "table_2x2 =
     \<lparr>rows = [\<lparr>cells = [text_cell ''A'', empty_cell]\<rparr>,
              \<lparr>cells = [empty_cell, text_cell ''B'']\<rparr>]\<rparr>"

text \<open>A solid fill with the given colour, and a shape carrying a fill.\<close>

definition solid_fill :: "color_format \<Rightarrow> fill_format" where
  "solid_fill c = \<lparr>fill_type = Inr (Some SOLID), fore_color = Inr c\<rparr>"

definition rgb_color :: "8 word \<Rightarrow> 8 word \<Rightarrow> 8 word \<Rightarrow> color_format" where
  "rgb_color r g b =
     \<lparr>rgb = Inr (Some (r, g, b)), theme_color = Inr None, brightness = Inr 0\<rparr>"

definition scheme_color :: "string \<times> int \<Rightarrow> rat \<Rightarrow> color_format" where
  "scheme_color t x =
     \<lparr>rgb = Inl AttributeError, theme_color = Inr (Some t), brightness = Inr x\<rparr>"

definition filled_shape :: "fill_format attr \<Rightarrow> shape" where
  "filled_shape f = (bare_shape 2 (Inr (Some 1)))\<lparr>fill := f\<rparr>"

text \<open>A text box holding one run of text.\<close>

definition text_box :: "int \<Rightarrow> string \<Rightarrow> shape" where
  "text_box i t =
     (bare_shape i (Inr (Some 17)))
       \<lparr>has_text_frame := True, text_frame := Inr \<lparr>paragraphs = [one_run_paragraph t]\<rparr>\<rparr>"

section \<open>Notions used in the statements and proofs\<close>

text \<open>A non-empty string that neither begins nor ends with whitespace.\<close>

definition trimmed :: "string \<Rightarrow> bool" where
  "trimmed p \<longleftrightarrow> p \<noteq> [] \<and> \<not> is_space (hd p) \<and> \<not> is_space (last p)"

text \<open>
  The count of claim C2, following the spec's words: the runs with non-empty trimmed
  text in the text frames of the shapes that are not connectors, over all slides.
\<close>

definition frame_run_count :: "text_frame \<Rightarrow> nat" where
  "frame_run_count tf =
     (\<Sum>p\<leftarrow>paragraphs tf. length (filter (\<lambda>r. strip (run_text r) \<noteq> []) (runs p)))"

definition shape_run_count :: "enumeration \<Rightarrow> shape \<Rightarrow> nat" where
  "shape_run_count E sh =
     (if is_line E sh = Inr False \<and> has_text_frame sh
      then (case text_frame sh of Inl e \<Rightarrow> 0 | Inr tf \<Rightarrow> frame_run_count tf)
      else 0)"

definition presentation_run_count :: "enumeration \<Rightarrow> presentation \<Rightarrow> nat" where
  "presentation_run_count E prs =
     (\<Sum>s\<leftarrow>slides prs. \<Sum>sh\<leftarrow>shapes s. shape_run_count E sh)"

text \<open>A row of the text-run report whose \<^verbatim>\<open>is_table_cell\<close> column is \<^verbatim>\<open>False\<close>.\<close>

definition is_frame_row :: "csv_row \<Rightarrow> bool" where
  "is_frame_row row \<longleftrightarrow> row ! 2 = VBool False"

text \<open>
  A row that comes from a shape that is not a connector: its first two columns are the
  index of a slide of the presentation and the identifier of a shape on that slide for
  which the connector test of lines 90-91 answers \<^verbatim>\<open>False\<close>.
\<close>

definition from_non_connector :: "enumeration \<Rightarrow> presentation \<Rightarrow> csv_row \<Rightarrow> bool" where
  "from_non_connector E prs row \<longleftrightarrow>
     (\<exists>k<length (slides prs). \<exists>sh\<in>set (shapes (slides prs ! k)).
        is_line E sh = Inr False \<and> row ! 0 = VInt (int k) \<and> row ! 1 = VInt (shape_id sh))"

text \<open>
  A shape on which a pass raises: the body of the loop over the shapes yields an
  exception for it. The outcome does not depend on the slide index or on the buffer.
\<close>

definition text_pass_raises :: "enumeration \<Rightarrow> shape \<Rightarrow> bool" where
  "text_pass_raises E sh = isl (text_details_of_shape E 0 sh [])"

definition summary_pass_raises :: "enumeration \<Rightarrow> shape \<Rightarrow> bool" where
  "summary_pass_raises E sh =
     (case is_line E sh of
        Inl e \<Rightarrow> True
      | Inr skip \<Rightarrow> \<not> skip \<and> isl (shape_details E 0 sh))"

text \<open>
  Two presentations. In the first, slide 0 holds a connector and slide 1 a text box, and
  both shapes have the identifier 2. In the second, the only slide holds a text box
  followed by a shape whose kind cannot be read.
\<close>

definition two_slides :: presentation where
  "two_slides =
     \<lparr>slides = [\<lparr>shapes = [bare_shape 2 (Inr (Some 9))]\<rparr>,
                \<lparr>shapes = [text_box 2 ''x'']\<rparr>]\<rparr>"

definition broken_slide :: presentation where
  "broken_slide =
     \<lparr>slides = [\<lparr>shapes = [text_box 1 ''x'', bare_shape 2 (Inl NotImplementedError)]\<rparr>]\<rparr>"

section \<open>The error monad and the Python primitives\<close>

lemma and_then_simps [simp]:
  "and_then (Inr v) f = f v" "and_then (Inl e) f = Inl e"
  by (simp_all add: and_then_def)

lemma and_then_eq_Inr: "and_then m f = Inr y \<longleftrightarrow> (\<exists>v. m = Inr v \<and> f v = Inr y)"
  by (cases m) simp_all

lemma hasattr_simps [simp]:
  "hasattr (Inr v) = Inr True" "hasattr (Inl AttributeError) = Inr False"
  by (simp_all add: hasattr_def)

lemma py_and_simps [simp]:
  "py_and (Inr True) b = b" "py_and (Inr False) b = Inr False" "py_and (Inl e) b = Inl e"
  by (simp_all add: py_and_def)

lemma py_or_simps [simp]:
  "py_or (Inr True) b = Inr True" "py_or (Inr False) b = b" "py_or (Inl e) b = Inl e"
  by (simp_all add: py_or_def)

text \<open>A kind test on a shape whose kind can be read is the plain comparison.\<close>

lemma type_is_member_readable:
  "shape_type sh = Inr st \<Longrightarrow> type_is_member E n sh = Inr (has_member E n \<and> st = map_of E n)"
  by (cases "has_member E n") (simp_all add: type_is_member_def)

lemma type_is_code_readable:
  "shape_type sh = Inr st \<Longrightarrow> type_is_code k sh = Inr (st = Some k)"
  by (simp add: type_is_code_def)

section \<open>Decimal strings and the two-decimal format\<close>

lemma digit_chars:
  "digit_char 0 = CHR ''0''" "digit_char 4 = CHR ''4''" "digit_char 6 = CHR ''6''"
  by code_simp+

lemma str_nat_0: "str_nat 0 = ''0''"
  by code_simp

lemma str_nat_not_Nil: "str_nat n \<noteq> []"
  by (subst str_nat.simps) simp

lemma str_nat_digits: "set (str_nat n) \<subseteq> digit_char ` {0..<10}"
proof (induction n rule: str_nat.induct)
  case (1 n)
  show ?case
  proof (cases "n < 10")
    case True
    then show ?thesis by (subst str_nat.simps) simp
  next
    case False
    with 1 have "set (str_nat (n div 10)) \<subseteq> digit_char ` {0..<10}" by simp
    moreover have "digit_char (n mod 10) \<in> digit_char ` {0..<10}" by simp
    ultimately show ?thesis using False by (subst str_nat.simps) simp
  qed
qed

lemma str_nat_length: "n < 10 ^ k \<Longrightarrow> 0 < k \<Longrightarrow> length (str_nat n) \<le> k"
proof (induction n arbitrary: k rule: str_nat.induct)
  case (1 n)
  show ?case
  proof (cases "n < 10")
    case True
    then show ?thesis using "1.prems" by (subst str_nat.simps) simp
  next
    case False
    then obtain j where k: "k = Suc j" and j: "0 < j"
      using "1.prems" by (cases k; cases "k - 1") auto
    have "n div 10 < 10 ^ j" using "1.prems" k by (simp add: less_mult_imp_div_less)
    with 1 False j have "length (str_nat (n div 10)) \<le> j" by simp
    then show ?thesis using False k by (subst str_nat.simps) simp
  qed
qed

text \<open>The rounding stays within half a unit of the last printed digit.\<close>

lemma round_half_even_near:
  assumes "0 \<le> y"
  shows "\<bar>of_nat (round_half_even y) - y\<bar> \<le> 1 / 2"
proof -
  have f: "of_int \<lfloor>y\<rfloor> \<le> y" "y < of_int \<lfloor>y\<rfloor> + 1" by linarith+
  have n: "(of_nat (nat \<lfloor>y\<rfloor>) :: rat) = of_int \<lfloor>y\<rfloor>" using assms by simp
  show ?thesis
    using f n by (auto simp: round_half_even_def Let_def)
qed

lemma round_half_even_46:
  assumes "455 / 1000 < x" and "x < 465 / 1000"
  shows "round_half_even (\<bar>x\<bar> * 100) = 46"
proof -
  define y where "y = \<bar>x\<bar> * 100"
  have y: "91 / 2 < y" "y < 93 / 2" using assms by (simp_all add: y_def)
  have "45 \<le> \<lfloor>y\<rfloor>" "\<lfloor>y\<rfloor> < 47" using y by (simp_all add: le_floor_iff floor_less_iff)
  then consider "\<lfloor>y\<rfloor> = 45" | "\<lfloor>y\<rfloor> = 46" by linarith
  then have "round_half_even y = 46"
  proof cases
    case 1
    then show ?thesis using y by (simp add: round_half_even_def Let_def)
  next
    case 2
    then show ?thesis using y by (simp add: round_half_even_def Let_def)
  qed
  then show ?thesis by (simp add: y_def)
qed

lemma format_2f_046:
  assumes "455 / 1000 < x" and "x < 465 / 1000"
  shows "format_2f x = ''0.46''"
proof -
  have "\<not> x < 0" using assms by simp
  then show ?thesis
    using round_half_even_46 [OF assms]
    by (simp add: format_2f_def str_nat_0 digit_chars)
qed

section \<open>Properties of the fill-colour classifier\<close>

lemma fill_label_not_Nil: "map_of fill_type_map ft = Some label \<Longrightarrow> label \<noteq> []"
  by (cases ft) (auto simp: fill_type_map_def)

lemma solid_color_info_not_Nil:
  "label \<noteq> [] \<Longrightarrow> solid_color_info label f = Inr s \<Longrightarrow> s \<noteq> []"
  by (auto simp: solid_color_info_def and_then_eq_Inr split: if_splits option.splits)

lemma inspect_fill_not_Nil: "inspect_fill f = Inr s \<Longrightarrow> s \<noteq> []"
  by (auto simp: inspect_fill_def and_then_eq_Inr
      split: option.splits if_splits dest: fill_label_not_Nil solid_color_info_not_Nil)

lemma classifier_with_fill:
  "fill sh = Inr f \<Longrightarrow>
   get_shape_fill_color_info E sh =
     Inr (case inspect_fill f of Inl e \<Rightarrow> ''Fill Info Error (General)'' | Inr s \<Rightarrow> s)"
  by (simp add: get_shape_fill_color_info_def)

lemma py_or_Inr: "py_or (Inr a) (Inr b) = Inr (a \<or> b)"
  by (cases a) simp_all

lemma classifier_without_fill:
  assumes "fill sh = Inl AttributeError" and "shape_type sh = Inr st"
  shows "get_shape_fill_color_info E sh = Inr
     (if has_member E ''TABLE'' \<and> st = map_of E ''TABLE'' then ''Table Container (Fill N/A)''
      else if has_member E ''CHART'' \<and> st = map_of E ''CHART'' then ''Chart Container (Fill N/A)''
      else if (has_member E ''GRAPHIC_FRAME'' \<and> st = map_of E ''GRAPHIC_FRAME'') \<or> st = Some 6
           then ''Graphic Frame (Fill N/A)''
      else ''Fill Attribute Missing / Other Type'')"
proof -
  define t where "t \<longleftrightarrow> has_member E ''TABLE'' \<and> st = map_of E ''TABLE''"
  define c where "c \<longleftrightarrow> has_member E ''CHART'' \<and> st = map_of E ''CHART''"
  define g where "g \<longleftrightarrow> has_member E ''GRAPHIC_FRAME'' \<and> st = map_of E ''GRAPHIC_FRAME''"
  define k where "k \<longleftrightarrow> st = Some 6"
  have reads: "type_is_member E ''TABLE'' sh = Inr t" "type_is_member E ''CHART'' sh = Inr c"
    "type_is_member E ''GRAPHIC_FRAME'' sh = Inr g" "type_is_code 6 sh = Inr k"
    unfolding t_def c_def g_def k_def
    using assms(2) by (rule type_is_member_readable type_is_code_readable)+
  have "get_shape_fill_color_info E sh = Inr
     (if t then ''Table Container (Fill N/A)''
      else if c then ''Chart Container (Fill N/A)''
      else if g \<or> k then ''Graphic Frame (Fill N/A)''
      else ''Fill Attribute Missing / Other Type'')"
    unfolding get_shape_fill_color_info_def reads py_or_Inr using assms(1) by simp
  then show ?thesis
    unfolding t_def c_def g_def k_def .
qed

lemma inspect_solid:
  "fill_type f = Inr (Some SOLID) \<Longrightarrow> inspect_fill f = solid_color_info ''Solid Fill'' f"
  by (simp add: inspect_fill_def fill_type_map_def)

text \<open>
  Claim C8. Against the library's enumeration the classifier gives a fill-less table and
  a fill-less chart the sentinels the claim names, but it misses the other graphic
  frames: the test of lines 23-25 asks for a member \<^verbatim>\<open>GRAPHIC_FRAME\<close>, which the
  enumeration does not have, or for the raw code 6, which is the kind of a group. A
  fill-less graphic frame that holds neither a table nor a chart (an embedded or linked
  OLE object, kinds 7 and 10, or a frame with no kind) gets the generic sentinel, and the
  graphic-frame sentinel is returned for the kind 6 and for no other.
\<close>

theorem graphic_frame_sentinel_missed:
  "get_shape_fill_color_info MSO_SHAPE_TYPE (bare_shape 1 (Inr (Some 19)))
     = Inr ''Table Container (Fill N/A)''
   \<and> get_shape_fill_color_info MSO_SHAPE_TYPE (bare_shape 1 (Inr (Some 3)))
     = Inr ''Chart Container (Fill N/A)''
   \<and> get_shape_fill_color_info MSO_SHAPE_TYPE (bare_shape 1 (Inr (Some 7)))
     = Inr ''Fill Attribute Missing / Other Type''
   \<and> get_shape_fill_color_info MSO_SHAPE_TYPE (bare_shape 1 (Inr (Some 10)))
     = Inr ''Fill Attribute Missing / Other Type''
   \<and> get_shape_fill_color_info MSO_SHAPE_TYPE (bare_shape 1 (Inr None))
     = Inr ''Fill Attribute Missing / Other Type''
   \<and> get_shape_fill_color_info MSO_SHAPE_TYPE (bare_shape 1 (Inr (Some 6)))
     = Inr ''Graphic Frame (Fill N/A)''
   \<and> (get_shape_fill_color_info MSO_SHAPE_TYPE (bare_shape i (Inr st))
         = Inr ''Graphic Frame (Fill N/A)'' \<longleftrightarrow> st = Some 6)"
proof -
  have r: "get_shape_fill_color_info MSO_SHAPE_TYPE (bare_shape j (Inr k)) = Inr
     (if k = Some 19 then ''Table Container (Fill N/A)''
      else if k = Some 3 then ''Chart Container (Fill N/A)''
      else if k = Some 6 then ''Graphic Frame (Fill N/A)''
      else ''Fill Attribute Missing / Other Type'')" for j k
    using classifier_without_fill [of "bare_shape j (Inr k)" k MSO_SHAPE_TYPE]
    by (simp add: bare_shape_def MSO_SHAPE_TYPE_def has_member_def)
  show ?thesis
    unfolding r by simp
qed

text \<open>
  Claim C3, amended. For a shape with a solid fill: an explicit RGB triple gives
  \<^verbatim>\<open>RGB(r,g,b)\<close> with the three components in decimal, each at most 255; a theme
  colour with no RGB gives \<^verbatim>\<open>ThemeColor(Type:NAME (t), Brightness:x)\<close>, with the
  member of the theme-colour enumeration as the library prints it (its name, then its
  value in brackets) and the brightness in the two-decimal format; and a member of value
  3 with a brightness between 0.455 and 0.465 (the decimal 0.456 and the float nearest to
  it are both there) gives exactly \<^verbatim>\<open>ThemeColor(Type:NAME (3), Brightness:0.46)\<close>.
\<close>

theorem solid_fill_color:
  assumes "fill sh = Inr f" and "fill_type f = Inr (Some SOLID)" and "fore_color f = Inr c"
  shows "(rgb c = Inr (Some (r, g, b)) \<longrightarrow>
            get_shape_fill_color_info E sh =
              Inr (''RGB('' @ str_nat (unat r) @ '','' @ str_nat (unat g) @ '',''
                   @ str_nat (unat b) @ '')'')
            \<and> unat r \<le> 255 \<and> unat g \<le> 255 \<and> unat b \<le> 255)
       \<and> ((rgb c = Inl AttributeError \<or> rgb c = Inr None) \<and>
            theme_color c = Inr (Some (n, t)) \<and> brightness c = Inr x \<longrightarrow>
            get_shape_fill_color_info E sh =
              Inr (''ThemeColor(Type:'' @ n @ '' ('' @ str_int t @ '')'' @ '', Brightness:''
                   @ format_2f x @ '')'')
            \<and> (t = 3 \<and> 455 / 1000 < x \<and> x < 465 / 1000 \<longrightarrow>
                get_shape_fill_color_info E sh =
                  Inr (''ThemeColor(Type:'' @ n @ '' (3), Brightness:0.46)'')))"
proof -
  have res: "get_shape_fill_color_info E sh =
      Inr (case solid_color_info ''Solid Fill'' f of
             Inl e \<Rightarrow> ''Fill Info Error (General)'' | Inr s \<Rightarrow> s)"
    using assms by (simp add: classifier_with_fill inspect_solid)
  have bytes: "unat w \<le> 255" for w :: "8 word"
    using unsigned_less [of w, where ?'a = nat] by simp
  have rgb_case: "solid_color_info ''Solid Fill'' f =
      Inr (''RGB('' @ str_nat (unat r) @ '','' @ str_nat (unat g) @ '',''
           @ str_nat (unat b) @ '')'')"
    if "rgb c = Inr (Some (r, g, b))"
    using assms that by (simp add: solid_color_info_def)
  have theme_case: "solid_color_info ''Solid Fill'' f =
      Inr (''ThemeColor(Type:'' @ n @ '' ('' @ str_int t @ '')'' @ '', Brightness:''
           @ format_2f x @ '')'')"
    if "rgb c = Inl AttributeError \<or> rgb c = Inr None"
      and "theme_color c = Inr (Some (n, t))" and "brightness c = Inr x"
    using assms that by (auto simp: solid_color_info_def py_format_member_def)
  have three: "str_int 3 = ''3''" by code_simp
  show ?thesis
    using rgb_case theme_case
    by (auto simp: res bytes format_2f_046 three)
qed

lemma dark_2_color_info:
  assumes "455 / 1000 < x" and "x < 465 / 1000"
  shows "get_shape_fill_color_info E
           (filled_shape (Inr (solid_fill (scheme_color (''DARK_2'', 3) x))))
         = Inr ''ThemeColor(Type:DARK_2 (3), Brightness:0.46)''"
proof -
  have three: "str_int 3 = ''3''" by code_simp
  show ?thesis
    by (simp add: classifier_with_fill inspect_solid filled_shape_def solid_fill_def
        scheme_color_def solid_color_info_def py_format_member_def three
        format_2f_046 [OF assms])
qed

theorem solid_fill_color_witness:
  "get_shape_fill_color_info MSO_SHAPE_TYPE (filled_shape (Inr (solid_fill (rgb_color 255 0 128))))
     = Inr ''RGB(255,0,128)'' \<and>
   get_shape_fill_color_info MSO_SHAPE_TYPE
       (filled_shape (Inr (solid_fill (scheme_color (''DARK_2'', 3) (456 / 1000)))))
     = Inr ''ThemeColor(Type:DARK_2 (3), Brightness:0.46)'' \<and>
   get_shape_fill_color_info MSO_SHAPE_TYPE
       (filled_shape (Inr (solid_fill
          (scheme_color (''DARK_2'', 3) (8214565720323785 / 18014398509481984)))))
     = Inr ''ThemeColor(Type:DARK_2 (3), Brightness:0.46)''"
proof -
  have n: "str_nat 255 = ''255''" "str_nat 0 = ''0''" "str_nat 128 = ''128''"
    by code_simp+
  have u: "unat (255 :: 8 word) = 255" "unat (128 :: 8 word) = 128"
    by simp_all
  have sel: "fill (filled_shape (Inr (solid_fill k))) = Inr (solid_fill k)"
    "fill_type (solid_fill k) = Inr (Some SOLID)" "fore_color (solid_fill k) = Inr k" for k
    by (simp_all add: filled_shape_def solid_fill_def)
  have "get_shape_fill_color_info MSO_SHAPE_TYPE
          (filled_shape (Inr (solid_fill (rgb_color 255 0 128)))) = Inr ''RGB(255,0,128)''"
    using solid_fill_color [where c = "rgb_color 255 0 128" and r = 255 and g = 0 and b = 128
        and E = MSO_SHAPE_TYPE, OF sel]
    by (simp add: rgb_color_def n u)
  moreover have "get_shape_fill_color_info MSO_SHAPE_TYPE
          (filled_shape (Inr (solid_fill (scheme_color (''DARK_2'', 3) (456 / 1000)))))
        = Inr ''ThemeColor(Type:DARK_2 (3), Brightness:0.46)''"
  proof -
    let ?c = "scheme_color (''DARK_2'', 3) (456 / 1000)"
    have a: "(rgb ?c = Inl AttributeError \<or> rgb ?c = Inr None) \<and>
        theme_color ?c = Inr (Some (''DARK_2'', 3)) \<and> brightness ?c = Inr (456 / 1000)"
      by (simp add: scheme_color_def)
    have b: "(3 :: int) = 3 \<and> (455 / 1000 :: rat) < 456 / 1000
        \<and> (456 / 1000 :: rat) < 465 / 1000"
      by simp
    have "get_shape_fill_color_info MSO_SHAPE_TYPE (filled_shape (Inr (solid_fill ?c)))
        = Inr (''ThemeColor(Type:'' @ ''DARK_2'' @ '' (3), Brightness:0.46)'')"
      using solid_fill_color [where c = ?c and n = "''DARK_2''" and t = 3
          and x = "456 / 1000" and E = MSO_SHAPE_TYPE, OF sel] a b
      by blast
    then show ?thesis by simp
  qed
  moreover have "get_shape_fill_color_info MSO_SHAPE_TYPE
          (filled_shape (Inr (solid_fill
             (scheme_color (''DARK_2'', 3) (8214565720323785 / 18014398509481984)))))
        = Inr ''ThemeColor(Type:DARK_2 (3), Brightness:0.46)''"
  proof -
    let ?x = "8214565720323785 / 18014398509481984 :: rat"
    let ?c = "scheme_color (''DARK_2'', 3) ?x"
    have a: "(rgb ?c = Inl AttributeError \<or> rgb ?c = Inr None) \<and>
        theme_color ?c = Inr (Some (''DARK_2'', 3)) \<and> brightness ?c = Inr ?x"
      by (simp add: scheme_color_def)
    have b: "(3 :: int) = 3 \<and> 455 / 1000 < ?x \<and> ?x < 465 / 1000"
      by simp
    have "get_shape_fill_color_info MSO_SHAPE_TYPE (filled_shape (Inr (solid_fill ?c)))
        = Inr (''ThemeColor(Type:'' @ ''DARK_2'' @ '' (3), Brightness:0.46)'')"
      using solid_fill_color [where c = ?c and n = "''DARK_2''" and t = 3 and x = ?x
          and E = MSO_SHAPE_TYPE, OF sel] a b
      by blast
    then show ?thesis by simp
  qed
  ultimately show ?thesis by simp
qed

text \<open>
  Claim C3 as stated fails in its theme half: line 47 formats the member the library
  returns, not a bare index. The theme colour \<^verbatim>\<open>DARK_2\<close>, whose index is 3, with
  brightness 0.456 gives \<^verbatim>\<open>ThemeColor(Type:DARK_2 (3), Brightness:0.46)\<close>, which is
  not the string of the claim.
\<close>

theorem theme_color_index_counterexample:
  "get_shape_fill_color_info MSO_SHAPE_TYPE
       (filled_shape (Inr (solid_fill (scheme_color (''DARK_2'', 3) (456 / 1000)))))
     = Inr ''ThemeColor(Type:DARK_2 (3), Brightness:0.46)''
   \<and> get_shape_fill_color_info MSO_SHAPE_TYPE
       (filled_shape (Inr (solid_fill (scheme_color (''DARK_2'', 3) (456 / 1000)))))
     \<noteq> Inr ''ThemeColor(Type:3, Brightness:0.46)''"
proof -
  have "(455 / 1000 :: rat) < 456 / 1000" "(456 / 1000 :: rat) < 465 / 1000" by simp_all
  from dark_2_color_info [OF this, of MSO_SHAPE_TYPE] show ?thesis by simp
qed

text \<open>
  Claim C4, amended. When the fill attribute is present, or is absent while the shape's
  kind can be read, the classifier returns a string, the string is not empty, and an
  exception raised while the fill is inspected is replaced by
  \<^verbatim>\<open>Fill Info Error (General)\<close>.
\<close>

theorem classifier_total_on_readable:
  assumes "fill sh = Inr f \<or> (fill sh = Inl AttributeError \<and> shape_type sh = Inr st)"
  shows "\<exists>s. get_shape_fill_color_info E sh = Inr s \<and> s \<noteq> [] \<and>
           (\<forall>e. fill sh = Inr f \<longrightarrow> inspect_fill f = Inl e \<longrightarrow>
                  s = ''Fill Info Error (General)'')"
  using assms
proof
  assume f: "fill sh = Inr f"
  show ?thesis
  proof (cases "inspect_fill f")
    case (Inl e)
    with f show ?thesis by (simp add: classifier_with_fill)
  next
    case (Inr s)
    with f inspect_fill_not_Nil [OF Inr] show ?thesis by (simp add: classifier_with_fill)
  qed
next
  assume "fill sh = Inl AttributeError \<and> shape_type sh = Inr st"
  then show ?thesis by (simp add: classifier_without_fill)
qed

theorem classifier_total_on_readable_witness:
  "\<exists>s. get_shape_fill_color_info MSO_SHAPE_TYPE
          (filled_shape (Inr \<lparr>fill_type = Inl ValueError, fore_color = Inl TypeError\<rparr>)) = Inr s
        \<and> s \<noteq> [] \<and> s = ''Fill Info Error (General)''"
  using classifier_total_on_readable
    [of "filled_shape (Inr \<lparr>fill_type = Inl ValueError, fore_color = Inl TypeError\<rparr>)"
        "\<lparr>fill_type = Inl ValueError, fore_color = Inl TypeError\<rparr>" None MSO_SHAPE_TYPE]
  by (simp add: filled_shape_def inspect_fill_def)

text \<open>
  Claim C4 as stated fails: the reads of the kind in lines 19-25 are outside the
  \<^verbatim>\<open>try\<close>. A shape with no fill attribute whose kind read raises makes the
  classifier raise.
\<close>

theorem classifier_raises_counterexample:
  "get_shape_fill_color_info MSO_SHAPE_TYPE (bare_shape 1 (Inl NotImplementedError))
     = Inl NotImplementedError"
  by (simp add: get_shape_fill_color_info_def bare_shape_def type_is_member_def
      MSO_SHAPE_TYPE_def has_member_def)

section \<open>Properties of the text concatenator\<close>

lemma strip_ends:
  assumes "strip s \<noteq> []"
  shows "\<not> is_space (hd (strip s))" and "\<not> is_space (last (strip s))"
proof -
  define t where "t = dropWhile is_space s"
  define u where "u = dropWhile is_space (rev t)"
  have s: "strip s = rev u" by (simp add: strip_def t_def u_def)
  with assms have u: "u \<noteq> []" by simp
  then have "\<not> is_space (hd u)" unfolding u_def by (rule hd_dropWhile)
  then show "\<not> is_space (last (strip s))" using u by (simp add: s last_rev)
  have t: "t \<noteq> []" using u by (auto simp: u_def)
  obtain v where v: "rev t = v @ u"
    unfolding u_def by (metis takeWhile_dropWhile_id)
  have "last u = last (rev t)" using u v by simp
  also have "\<dots> = hd t" using t by (simp add: last_rev)
  finally have "hd (strip s) = hd t" using u by (simp add: s hd_rev)
  moreover have "\<not> is_space (hd t)" using t unfolding t_def by (rule hd_dropWhile)
  ultimately show "\<not> is_space (hd (strip s))" by simp
qed

lemma trimmed_strip: "strip s \<noteq> [] \<Longrightarrow> trimmed (strip s)"
  by (simp add: trimmed_def strip_ends)

lemma paragraph_parts_eq:
  "paragraph_parts ps acc =
     acc @ filter (\<lambda>t. t \<noteq> []) (map (\<lambda>p. strip (paragraph_text p)) ps)"
  by (induction ps arbitrary: acc) simp_all

lemma cell_parts_eq:
  "cell_parts cs acc = acc @ filter (\<lambda>t. t \<noteq> []) (map (\<lambda>c. strip (cell_text c)) cs)"
  by (induction cs arbitrary: acc) simp_all

lemma row_parts_eq:
  "row_parts rs acc =
     acc @ concat (map (\<lambda>r. filter (\<lambda>t. t \<noteq> []) (map (\<lambda>c. strip (cell_text c)) (cells r))) rs)"
  by (induction rs arbitrary: acc) (simp_all add: cell_parts_eq)

lemma shape_text_parts_trimmed:
  assumes "shape_text_parts E sh = Inr ps"
  shows "\<forall>p\<in>set ps. trimmed p"
  using assms
  by (auto simp: shape_text_parts_def and_then_eq_Inr paragraph_parts_eq row_parts_eq
      trimmed_strip split: if_splits)

lemma join_ends:
  assumes "ps \<noteq> []" and "\<forall>p\<in>set ps. p \<noteq> []"
  shows "join sep ps \<noteq> [] \<and> hd (join sep ps) = hd (hd ps)
         \<and> last (join sep ps) = last (last ps)"
  using assms by (induction sep ps rule: join.induct) auto

lemma join_trimmed:
  assumes "\<forall>p\<in>set ps. trimmed p"
  shows "join sep ps = [] \<or> trimmed (join sep ps)"
proof (cases ps)
  case Nil
  then show ?thesis by simp
next
  case (Cons p qs)
  then have ne: "ps \<noteq> []" "\<forall>p\<in>set ps. p \<noteq> []" using assms by (auto simp: trimmed_def)
  have "hd ps \<in> set ps" "last ps \<in> set ps" using ne(1) by simp_all
  then have "trimmed (hd ps)" "trimmed (last ps)" using assms by blast+
  then show ?thesis using join_ends [OF ne, of sep] by (simp add: trimmed_def)
qed

lemma space_is_space: "is_space CHR '' ''"
  by (simp add: is_space_def)

lemma trimmed_no_delimiter:
  assumes "s = [] \<or> trimmed s"
  shows "\<not> prefix '' | '' s" and "\<not> suffix '' | '' s"
proof -
  show "\<not> prefix '' | '' s"
  proof
    assume "prefix '' | '' s"
    then obtain t where "s = '' | '' @ t" by (auto simp: prefix_def)
    then have "s \<noteq> []" "hd s = CHR '' ''" by simp_all
    with assms space_is_space show False by (simp add: trimmed_def)
  qed
  show "\<not> suffix '' | '' s"
  proof
    assume "suffix '' | '' s"
    then obtain t where "s = t @ '' | ''" by (auto simp: suffix_def)
    then have "s \<noteq> []" "last s = CHR '' ''" by simp_all
    with assms space_is_space show False by (simp add: trimmed_def)
  qed
qed

text \<open>
  Claim C7. Running the concatenator twice on the same shape gives the same string both
  times. Its output never begins or ends with the delimiter \<^verbatim>\<open>" | "\<close>: every part
  is trimmed and non-empty, so this holds for any number of parts, and in particular for
  none or one. The output is empty when the shape has no text frame and is not a table,
  and when every paragraph text and every cell text is empty after trimming.
\<close>

theorem concatenator_properties:
  "(get_all_text_from_shape E sh = Inr a \<and> get_all_text_from_shape E sh = Inr b \<longrightarrow> a = b)
   \<and> (get_all_text_from_shape E sh = Inr a \<longrightarrow> \<not> prefix '' | '' a \<and> \<not> suffix '' | '' a)
   \<and> (\<not> has_text_frame sh \<and> is_table E sh = Inr False \<longrightarrow>
        get_all_text_from_shape E sh = Inr [])
   \<and> ((has_text_frame sh \<longrightarrow>
          (\<exists>tf. text_frame sh = Inr tf
                \<and> (\<forall>p\<in>set (paragraphs tf). strip (paragraph_text p) = [])))
        \<and> (\<exists>t. is_table E sh = Inr t
                \<and> (t \<longrightarrow> (\<exists>tb. table sh = Inr tb
                      \<and> (\<forall>r\<in>set (rows tb). \<forall>c\<in>set (cells r). strip (cell_text c) = [])))) \<longrightarrow>
        get_all_text_from_shape E sh = Inr [])"
proof (intro conjI impI)
  assume "get_all_text_from_shape E sh = Inr a \<and> get_all_text_from_shape E sh = Inr b"
  then have "Inr a = (Inr b :: py_exn + string)" by (elim conjE) (rule trans [OF sym])
  then show "a = b" by simp
next
  assume a: "get_all_text_from_shape E sh = Inr a"
  then obtain ps where ps: "shape_text_parts E sh = Inr ps" and j: "a = join '' | '' ps"
    by (auto simp: get_all_text_from_shape_def and_then_eq_Inr)
  have "a = [] \<or> trimmed a"
    unfolding j using shape_text_parts_trimmed [OF ps] by (rule join_trimmed)
  then show "\<not> prefix '' | '' a" "\<not> suffix '' | '' a"
    by (rule trimmed_no_delimiter)+
next
  assume "\<not> has_text_frame sh \<and> is_table E sh = Inr False"
  then show "get_all_text_from_shape E sh = Inr []"
    by (simp add: get_all_text_from_shape_def shape_text_parts_def)
next
  assume h: "(has_text_frame sh \<longrightarrow>
          (\<exists>tf. text_frame sh = Inr tf
                \<and> (\<forall>p\<in>set (paragraphs tf). strip (paragraph_text p) = [])))
        \<and> (\<exists>t. is_table E sh = Inr t
                \<and> (t \<longrightarrow> (\<exists>tb. table sh = Inr tb
                      \<and> (\<forall>r\<in>set (rows tb). \<forall>c\<in>set (cells r). strip (cell_text c) = []))))"
  have nil: "filter (\<lambda>t. t \<noteq> []) (map f xs) = []" if "\<forall>x\<in>set xs. f x = []"
    for f :: "'x \<Rightarrow> string" and xs
    using that by (induction xs) simp_all
  have frame: "(if has_text_frame sh
       then and_then (text_frame sh) (\<lambda>tf. Inr (paragraph_parts (paragraphs tf) []))
       else Inr []) = Inr []"
    using h by (auto simp: paragraph_parts_eq nil)
  from h obtain t where t: "is_table E sh = Inr t"
    and tb: "t \<longrightarrow> (\<exists>tb. table sh = Inr tb
                \<and> (\<forall>r\<in>set (rows tb). \<forall>c\<in>set (cells r). strip (cell_text c) = []))"
    by blast
  have "shape_text_parts E sh = Inr []"
    unfolding shape_text_parts_def frame using t tb
    by (auto simp: row_parts_eq nil)
  then show "get_all_text_from_shape E sh = Inr []"
    by (simp add: get_all_text_from_shape_def)
qed

text \<open>The two kind tests on a shape whose kind can be read, and the example enumeration.\<close>

lemma is_line_readable:
  "shape_type sh = Inr st \<Longrightarrow>
   is_line E sh = Inr (if has_member E ''LINE'' then st = map_of E ''LINE'' else st = Some 13)"
  by (simp add: is_line_def type_is_member_def type_is_code_def py_or_Inr)

lemma is_table_readable:
  "shape_type sh = Inr st \<Longrightarrow>
   is_table E sh = Inr (if has_member E ''TABLE'' then st = map_of E ''TABLE'' else st = Some 19)"
  by (simp add: is_table_def type_is_member_def type_is_code_def py_or_Inr)

lemma MSO_members:
  "has_member MSO_SHAPE_TYPE ''LINE''" "map_of MSO_SHAPE_TYPE ''LINE'' = Some 9"
  "has_member MSO_SHAPE_TYPE ''TABLE''" "map_of MSO_SHAPE_TYPE ''TABLE'' = Some 19"
  by (simp_all add: has_member_def MSO_SHAPE_TYPE_def)

lemma strip_examples:
  "strip ''A'' = ''A''" "strip ''B'' = ''B''" "strip [] = []" "strip ''Hello'' = ''Hello''"
  "strip ''  '' = []" "strip ''x'' = ''x''"
  by (simp_all add: strip_def is_space_def)


theorem concatenator_properties_witness:
  "get_all_text_from_shape MSO_SHAPE_TYPE (text_box 3 ''Hello'') = Inr ''Hello''
   \<and> \<not> prefix '' | '' ''Hello'' \<and> \<not> suffix '' | '' ''Hello''
   \<and> get_all_text_from_shape MSO_SHAPE_TYPE (bare_shape 1 (Inr (Some 13))) = Inr []
   \<and> get_all_text_from_shape MSO_SHAPE_TYPE (text_box 3 ''  '') = Inr []"
proof -
  let ?E = MSO_SHAPE_TYPE
  let ?pic = "bare_shape 1 (Inr (Some 13))"
  have k: "shape_type (text_box i t) = Inr (Some 17)" "has_text_frame (text_box i t)"
    "text_frame (text_box i t) = Inr \<lparr>paragraphs = [one_run_paragraph t]\<rparr>" for i t
    by (simp_all add: text_box_def bare_shape_def)
  have p: "shape_type ?pic = Inr (Some 13)" "\<not> has_text_frame ?pic"
    by (simp_all add: bare_shape_def)
  have t: "is_table ?E (text_box i t) = Inr False" "is_table ?E ?pic = Inr False" for i t
    by (simp_all add: is_table_readable [OF k(1)] is_table_readable [OF p(1)] MSO_members)
  have hello: "get_all_text_from_shape ?E (text_box 3 ''Hello'') = Inr ''Hello''"
    by (simp add: get_all_text_from_shape_def shape_text_parts_def k t one_run_paragraph_def
        strip_examples)
  have ends: "\<not> prefix '' | '' ''Hello'' \<and> \<not> suffix '' | '' ''Hello''"
    by (rule concatenator_properties [of ?E "text_box 3 ''Hello''" "''Hello''" "''Hello''",
          THEN conjunct2, THEN conjunct1, THEN mp, OF hello])
  have neither: "get_all_text_from_shape ?E ?pic = Inr []"
    by (rule concatenator_properties [of ?E ?pic "[]" "[]",
          THEN conjunct2, THEN conjunct2, THEN conjunct1, THEN mp, OF conjI [OF p(2) t(2)]])
  have frame: "has_text_frame (text_box 3 ''  '') \<longrightarrow>
      (\<exists>tf. text_frame (text_box 3 ''  '') = Inr tf
            \<and> (\<forall>p\<in>set (paragraphs tf). strip (paragraph_text p) = []))"
    by (simp add: k one_run_paragraph_def strip_examples)
  have tab: "\<exists>t. is_table ?E (text_box 3 ''  '') = Inr t
      \<and> (t \<longrightarrow> (\<exists>tb. table (text_box 3 ''  '') = Inr tb
            \<and> (\<forall>r\<in>set (rows tb). \<forall>c\<in>set (cells r). strip (cell_text c) = [])))"
    by (rule exI [of _ False]) (simp add: t)
  have blank: "get_all_text_from_shape ?E (text_box 3 ''  '') = Inr []"
    by (rule concatenator_properties [of ?E "text_box 3 ''  ''" "[]" "[]",
          THEN conjunct2, THEN conjunct2, THEN conjunct2, THEN mp, OF conjI [OF frame tab]])
  show ?thesis
    using hello ends neither blank by (intro conjI) simp_all
qed

section \<open>The table of two rows and two columns\<close>

lemma write_2x2:
  "write_table_rows mk 0 (rows table_2x2) out =
     out @ [mk 0 0 0 0 ''A'', mk (Suc 0) (Suc 0) 0 0 ''B'']"
  by (simp add: table_2x2_def text_cell_def empty_cell_def one_run_paragraph_def
      strip_examples)

lemma parts_2x2: "row_parts (rows table_2x2) [] = [''A'', ''B'']"
  by (simp add: table_2x2_def text_cell_def empty_cell_def strip_examples)

text \<open>
  Claim C1. A table shape that is not a connector and has no text frame, whose table has
  two rows and two columns with "A" in cell (0,0), "B" in cell (1,1) and the other two
  cells empty, makes the text-run extractor write exactly the rows
  (true, 0, 0, 0, 0, "A") and (true, 1, 1, 0, 0, "B") after the slide index and the shape
  identifier, and the concatenator returns \<^verbatim>\<open>"A | B"\<close> for it.
\<close>

theorem table_2x2_round_trip:
  assumes "is_line E sh = Inr False" and "is_table E sh = Inr True"
    and "\<not> has_text_frame sh" and "table sh = Inr table_2x2"
  shows "text_details_of_shape E slide_idx sh out =
           Inr (out @
             [[VInt (int slide_idx), VInt (shape_id sh), VBool True,
               VInt 0, VInt 0, VInt 0, VInt 0, VStr ''A''],
              [VInt (int slide_idx), VInt (shape_id sh), VBool True,
               VInt 1, VInt 1, VInt 0, VInt 0, VStr ''B'']])
         \<and> get_all_text_from_shape E sh = Inr ''A | B''"
  using assms
  by (simp add: text_details_of_shape_def write_2x2 cell_row_def
      get_all_text_from_shape_def shape_text_parts_def parts_2x2)

theorem table_2x2_round_trip_witness:
  "generate_text_details_tsv MSO_SHAPE_TYPE
       (Inr \<lparr>slides = [\<lparr>shapes = [(bare_shape 4 (Inr (Some 19)))\<lparr>table := Inr table_2x2\<rparr>]\<rparr>]\<rparr>)
     = Some [map VStr text_headers,
             [VInt 0, VInt 4, VBool True, VInt 0, VInt 0, VInt 0, VInt 0, VStr ''A''],
             [VInt 0, VInt 4, VBool True, VInt 1, VInt 1, VInt 0, VInt 0, VStr ''B'']]
   \<and> get_all_text_from_shape MSO_SHAPE_TYPE
         ((bare_shape 4 (Inr (Some 19)))\<lparr>table := Inr table_2x2\<rparr>) = Inr ''A | B''"
proof -
  let ?sh = "(bare_shape 4 (Inr (Some 19)))\<lparr>table := Inr table_2x2\<rparr>"
  have k: "shape_type ?sh = Inr (Some 19)" "\<not> has_text_frame ?sh"
    "table ?sh = Inr table_2x2" "shape_id ?sh = 4"
    by (simp_all add: bare_shape_def)
  have l: "is_line MSO_SHAPE_TYPE ?sh = Inr False"
    by (simp add: is_line_readable [OF k(1)] MSO_members)
  have t: "is_table MSO_SHAPE_TYPE ?sh = Inr True"
    by (simp add: is_table_readable [OF k(1)] MSO_members)
  show ?thesis
    using table_2x2_round_trip [OF l t k(2) k(3), of 0 "[map VStr text_headers]"]
    by (simp add: generate_text_details_tsv_def k(4))
qed

section \<open>Counting the rows of the text-run extractor\<close>

lemma write_runs_count:
  assumes "\<And>j t. P (mk j t) = b"
  shows "length (filter P (write_runs mk i rs out)) =
           length (filter P out)
           + (if b then length (filter (\<lambda>r. strip (run_text r) \<noteq> []) rs) else 0)"
  using assms by (induction rs arbitrary: i out) auto

lemma write_paragraphs_count:
  assumes "\<And>a j t. P (mk a j t) = b"
  shows "length (filter P (write_paragraphs mk i ps out)) =
           length (filter P out)
           + (if b then (\<Sum>p\<leftarrow>ps. length (filter (\<lambda>r. strip (run_text r) \<noteq> []) (runs p)))
              else 0)"
proof (induction ps arbitrary: i out)
  case Nil
  show ?case by simp
next
  case (Cons p ps)
  have "\<And>j t. P (mk i j t) = b" by (rule assms)
  from write_runs_count [of P "mk i" b 0 "runs p" out, OF this] Cons.IH
  show ?case by simp
qed

lemma write_cells_count:
  assumes "\<And>c a j t. \<not> P (mk c a j t)"
  shows "length (filter P (write_cells mk i cs out)) = length (filter P out)"
proof (induction cs arbitrary: i out)
  case Nil
  show ?case by simp
next
  case (Cons c cs)
  have "\<And>a j t. P (mk i a j t) = False" by (simp add: assms)
  from write_paragraphs_count [of P "mk i" False, OF this] Cons.IH
  show ?case by simp
qed

lemma write_table_rows_count:
  assumes "\<And>r c a j t. \<not> P (mk r c a j t)"
  shows "length (filter P (write_table_rows mk i rs out)) = length (filter P out)"
proof (induction rs arbitrary: i out)
  case Nil
  show ?case by simp
next
  case (Cons r rs)
  have "\<And>c a j t. \<not> P (mk i c a j t)" by (simp add: assms)
  from write_cells_count [of P "mk i", OF this] Cons.IH
  show ?case by simp
qed

lemma is_frame_row_simps [simp]:
  "is_frame_row (frame_row i sid a j t)" "\<not> is_frame_row (cell_row i sid r c a j t)"
  "\<not> is_frame_row (map VStr text_headers)"
  by (simp_all add: is_frame_row_def frame_row_def cell_row_def text_headers_def)

lemma text_details_of_shape_count:
  assumes "text_details_of_shape E i sh out = Inr out'"
  shows "length (filter is_frame_row out') =
           length (filter is_frame_row out) + shape_run_count E sh"
proof -
  from assms obtain skip where skip: "is_line E sh = Inr skip"
    by (auto simp: text_details_of_shape_def and_then_eq_Inr)
  show ?thesis
  proof (cases skip)
    case True
    with assms skip show ?thesis
      by (simp add: text_details_of_shape_def shape_run_count_def)
  next
    case False
    with assms skip obtain out1 is_tbl where
      o1: "(if has_text_frame sh
              then and_then (text_frame sh) (\<lambda>tf.
                     Inr (write_paragraphs (frame_row i (shape_id sh)) 0 (paragraphs tf) out))
              else Inr out) = Inr out1"
      and tb: "is_table E sh = Inr is_tbl"
      and o2: "(if is_tbl
              then and_then (table sh) (\<lambda>tb.
                     Inr (write_table_rows (cell_row i (shape_id sh)) 0 (rows tb) out1))
              else Inr out1) = Inr out'"
      by (auto simp: text_details_of_shape_def and_then_eq_Inr)
    have c1: "length (filter is_frame_row out1) =
        length (filter is_frame_row out) + shape_run_count E sh"
      using o1 skip False
      by (auto simp: shape_run_count_def frame_run_count_def and_then_eq_Inr
          write_paragraphs_count [where b = True] split: if_splits)
    have c2: "length (filter is_frame_row out') = length (filter is_frame_row out1)"
      using o2
      by (auto simp: and_then_eq_Inr write_table_rows_count split: if_splits)
    from c1 c2 show ?thesis by simp
  qed
qed

lemma text_details_of_shapes_count:
  "text_details_of_shapes E i shs out = Inr out' \<Longrightarrow>
   length (filter is_frame_row out') =
     length (filter is_frame_row out) + (\<Sum>sh\<leftarrow>shs. shape_run_count E sh)"
proof (induction shs arbitrary: out)
  case Nil
  then show ?case by simp
next
  case (Cons sh shs)
  then obtain mid where m: "text_details_of_shape E i sh out = Inr mid"
    and r: "text_details_of_shapes E i shs mid = Inr out'"
    by (auto simp: and_then_eq_Inr)
  from text_details_of_shape_count [OF m] Cons.IH [OF r] show ?case by simp
qed

lemma text_details_of_slides_count:
  "text_details_of_slides E i ss out = Inr out' \<Longrightarrow>
   length (filter is_frame_row out') =
     length (filter is_frame_row out) + (\<Sum>s\<leftarrow>ss. \<Sum>sh\<leftarrow>shapes s. shape_run_count E sh)"
proof (induction ss arbitrary: i out)
  case Nil
  then show ?case by simp
next
  case (Cons s ss)
  then obtain mid where m: "text_details_of_shapes E i (shapes s) out = Inr mid"
    and r: "text_details_of_slides E (Suc i) ss mid = Inr out'"
    by (auto simp: and_then_eq_Inr)
  from text_details_of_shapes_count [OF m] Cons.IH [OF r] show ?case by simp
qed

text \<open>
  Claim C2. When the text-run extractor returns its output, the number of rows whose
  \<^verbatim>\<open>is_table_cell\<close> column is \<^verbatim>\<open>False\<close> equals the number of runs with non-empty
  trimmed text in the text frames of the shapes that are not connectors, over all slides.
\<close>

theorem frame_rows_count:
  assumes "generate_text_details_tsv E (Inr prs) = Some out"
  shows "length (filter (\<lambda>row. row ! 2 = VBool False) out) = presentation_run_count E prs"
proof -
  from assms have w: "text_details_of_slides E 0 (slides prs) [map VStr text_headers] = Inr out"
    by (simp add: generate_text_details_tsv_def split: sum.splits)
  have "length (filter is_frame_row out) = presentation_run_count E prs"
    using text_details_of_slides_count [OF w] by (simp add: presentation_run_count_def)
  then show ?thesis by (simp add: is_frame_row_def [abs_def])
qed

text \<open>The two passes on the example shapes.\<close>

lemma text_box_fields:
  "shape_type (text_box i t) = Inr (Some 17)" "has_text_frame (text_box i t)"
  "text_frame (text_box i t) = Inr \<lparr>paragraphs = [one_run_paragraph t]\<rparr>"
  "shape_id (text_box i t) = i"
  by (simp_all add: text_box_def bare_shape_def)

lemma text_box_kind:
  "is_line MSO_SHAPE_TYPE (text_box i t) = Inr False"
  "is_table MSO_SHAPE_TYPE (text_box i t) = Inr False"
  by (simp_all add: is_line_readable [OF text_box_fields(1)]
      is_table_readable [OF text_box_fields(1)] MSO_members)

lemma text_box_rows:
  "text_details_of_shape MSO_SHAPE_TYPE slide_idx (text_box i ''x'') out =
     Inr (out @ [[VInt (int slide_idx), VInt i, VBool False, VNone, VNone,
                  VInt 0, VInt 0, VStr ''x'']])"
  by (simp add: text_details_of_shape_def text_box_kind text_box_fields
      one_run_paragraph_def strip_examples frame_row_def)

lemma connector_kind:
  "is_line MSO_SHAPE_TYPE (bare_shape i (Inr (Some 9))) = Inr True"
  using is_line_readable [of "bare_shape i (Inr (Some 9))" "Some 9" MSO_SHAPE_TYPE]
  by (simp add: bare_shape_def MSO_members)

lemma connector_rows:
  "text_details_of_shape MSO_SHAPE_TYPE slide_idx (bare_shape i (Inr (Some 9))) out = Inr out"
  by (simp add: text_details_of_shape_def connector_kind)

lemma two_slides_text:
  "generate_text_details_tsv MSO_SHAPE_TYPE (Inr two_slides) =
     Some [map VStr text_headers,
           [VInt 1, VInt 2, VBool False, VNone, VNone, VInt 0, VInt 0, VStr ''x'']]"
  by (simp add: generate_text_details_tsv_def two_slides_def connector_rows text_box_rows)

lemma unreadable_kind:
  "is_line MSO_SHAPE_TYPE (bare_shape i (Inl e)) = Inl e"
  by (simp add: is_line_def type_is_member_def MSO_members bare_shape_def)


theorem frame_rows_count_witness:
  "generate_text_details_tsv MSO_SHAPE_TYPE (Inr two_slides) =
     Some [map VStr text_headers,
           [VInt 1, VInt 2, VBool False, VNone, VNone, VInt 0, VInt 0, VStr ''x'']]
   \<and> presentation_run_count MSO_SHAPE_TYPE two_slides = 1"
  using frame_rows_count [OF two_slides_text] two_slides_text
  by (simp add: text_headers_def)


section \<open>A pass that raises returns nothing\<close>

lemma isl_and_then: "isl (and_then m f) \<longleftrightarrow> isl m \<or> (\<exists>v. m = Inr v \<and> isl (f v))"
  by (cases m) simp_all

lemma text_shape_raises_indep:
  "isl (text_details_of_shape E i sh out) = text_pass_raises E sh"
  unfolding text_pass_raises_def text_details_of_shape_def
  by (cases "is_line E sh"; cases "text_frame sh"; cases "is_table E sh"; cases "table sh")
     auto

lemma text_shapes_raises:
  "isl (text_details_of_shapes E i shs out) \<longleftrightarrow> (\<exists>sh\<in>set shs. text_pass_raises E sh)"
proof (induction shs arbitrary: out)
  case Nil
  show ?case by simp
next
  case (Cons sh shs)
  show ?case
  proof (cases "text_details_of_shape E i sh out")
    case (Inl e)
    then have "text_pass_raises E sh"
      using text_shape_raises_indep [of E i sh out] by simp
    with Inl show ?thesis by simp
  next
    case (Inr mid)
    then have "\<not> text_pass_raises E sh"
      using text_shape_raises_indep [of E i sh out] by simp
    with Inr Cons.IH [of mid] show ?thesis by simp
  qed
qed

lemma text_slides_raises:
  "isl (text_details_of_slides E i ss out) \<longleftrightarrow>
     (\<exists>s\<in>set ss. \<exists>sh\<in>set (shapes s). text_pass_raises E sh)"
proof (induction ss arbitrary: i out)
  case Nil
  show ?case by simp
next
  case (Cons s ss)
  show ?case
  proof (cases "text_details_of_shapes E i (shapes s) out")
    case (Inl e)
    then have "\<exists>sh\<in>set (shapes s). text_pass_raises E sh"
      using text_shapes_raises [of E i "shapes s" out] by simp
    with Inl show ?thesis by simp
  next
    case (Inr mid)
    then have "\<not> (\<exists>sh\<in>set (shapes s). text_pass_raises E sh)"
      using text_shapes_raises [of E i "shapes s" out] by simp
    with Inr Cons.IH [of "Suc i" mid] show ?thesis by simp
  qed
qed

lemma shape_details_raises_indep: "isl (shape_details E i sh) = isl (shape_details E 0 sh)"
  unfolding shape_details_def
  by (simp add: isl_and_then)

lemma summary_shapes_raises:
  "isl (shape_details_of_shapes E i shs lst) \<longleftrightarrow> (\<exists>sh\<in>set shs. summary_pass_raises E sh)"
proof (induction shs arbitrary: lst)
  case Nil
  show ?case by simp
next
  case (Cons sh shs)
  show ?case
  proof (cases "is_line E sh")
    case (Inl e)
    then show ?thesis by (simp add: summary_pass_raises_def)
  next
    case (Inr skip)
    show ?thesis
    proof (cases skip)
      case True
      with Inr Cons.IH [of lst] show ?thesis by (simp add: summary_pass_raises_def)
    next
      case False
      show ?thesis
      proof (cases "shape_details E i sh")
        case (Inl e)
        then have "isl (shape_details E 0 sh)"
          using shape_details_raises_indep [of E i sh] by simp
        with Inl Inr False show ?thesis by (simp add: summary_pass_raises_def)
      next
        case d: (Inr d)
        then have "\<not> isl (shape_details E 0 sh)"
          using shape_details_raises_indep [of E i sh] by simp
        with d Inr False Cons.IH [of "lst @ [d]"] show ?thesis
          by (simp add: summary_pass_raises_def)
      qed
    qed
  qed
qed

lemma summary_slides_raises:
  "isl (shape_details_of_slides E i ss lst) \<longleftrightarrow>
     (\<exists>s\<in>set ss. \<exists>sh\<in>set (shapes s). summary_pass_raises E sh)"
proof (induction ss arbitrary: i lst)
  case Nil
  show ?case by simp
next
  case (Cons s ss)
  show ?case
  proof (cases "shape_details_of_shapes E i (shapes s) lst")
    case (Inl e)
    then have "\<exists>sh\<in>set (shapes s). summary_pass_raises E sh"
      using summary_shapes_raises [of E i "shapes s" lst] by simp
    with Inl show ?thesis by simp
  next
    case (Inr mid)
    then have "\<not> (\<exists>sh\<in>set (shapes s). summary_pass_raises E sh)"
      using summary_shapes_raises [of E i "shapes s" lst] by simp
    with Inr Cons.IH [of "Suc i" mid] show ?thesis by simp
  qed
qed

lemma text_pass_None:
  "generate_text_details_tsv E (Inr prs) = None \<longleftrightarrow>
     (\<exists>s\<in>set (slides prs). \<exists>sh\<in>set (shapes s). text_pass_raises E sh)"
  using text_slides_raises [of E 0 "slides prs" "[map VStr text_headers]"]
  by (simp add: generate_text_details_tsv_def split: sum.splits) (metis isl_def sum.disc(2))

lemma summary_pass_None:
  "generate_combined_shape_details_tsv E (Inr prs) = None \<longleftrightarrow>
     (\<exists>s\<in>set (slides prs). \<exists>sh\<in>set (shapes s). summary_pass_raises E sh)"
  using summary_slides_raises [of E 0 "slides prs" "[]"]
  by (cases "shape_details_of_slides E 0 (slides prs) []")
     (simp_all add: generate_combined_shape_details_tsv_def)

text \<open>
  Claim C5. When the load raises, both passes return \<^verbatim>\<open>None\<close>. When the load
  succeeds, a pass returns \<^verbatim>\<open>None\<close> exactly when some shape on some slide makes the
  body of its loop raise, wherever that shape stands and whatever was written before it:
  no row of a failed pass is returned, and \<^verbatim>\<open>None\<close> is returned for no other reason.
\<close>

theorem failed_pass_returns_nothing:
  "generate_text_details_tsv E (Inl e) = None
   \<and> generate_combined_shape_details_tsv E (Inl e) = None
   \<and> (generate_text_details_tsv E (Inr prs) = None \<longleftrightarrow>
        (\<exists>s\<in>set (slides prs). \<exists>sh\<in>set (shapes s). text_pass_raises E sh))
   \<and> (generate_combined_shape_details_tsv E (Inr prs) = None \<longleftrightarrow>
        (\<exists>s\<in>set (slides prs). \<exists>sh\<in>set (shapes s). summary_pass_raises E sh))"
  using text_pass_None [of E prs] summary_pass_None [of E prs]
  by (simp add: generate_text_details_tsv_def generate_combined_shape_details_tsv_def)

theorem failed_pass_returns_nothing_witness:
  "text_details_of_shape MSO_SHAPE_TYPE 0 (text_box 1 ''x'') [map VStr text_headers] =
     Inr [map VStr text_headers,
          [VInt 0, VInt 1, VBool False, VNone, VNone, VInt 0, VInt 0, VStr ''x'']]
   \<and> generate_text_details_tsv MSO_SHAPE_TYPE (Inr broken_slide) = None
   \<and> generate_combined_shape_details_tsv MSO_SHAPE_TYPE (Inr broken_slide) = None"
proof -
  let ?bad = "bare_shape 2 (Inl NotImplementedError)"
  have t: "text_pass_raises MSO_SHAPE_TYPE ?bad"
    by (simp add: text_pass_raises_def text_details_of_shape_def unreadable_kind)
  have s: "summary_pass_raises MSO_SHAPE_TYPE ?bad"
    by (simp add: summary_pass_raises_def unreadable_kind)
  have m: "\<exists>s\<in>set (slides broken_slide). \<exists>sh\<in>set (shapes s).
      text_pass_raises MSO_SHAPE_TYPE sh"
    "\<exists>s\<in>set (slides broken_slide). \<exists>sh\<in>set (shapes s).
      summary_pass_raises MSO_SHAPE_TYPE sh"
    using t s by (simp_all add: broken_slide_def)
  show ?thesis
    using failed_pass_returns_nothing [of MSO_SHAPE_TYPE AttributeError broken_slide] m
      text_box_rows [of 0 1 "[map VStr text_headers]"]
    by simp
qed

section \<open>Where the rows come from\<close>

text \<open>
  A property of every row a loop can write, and of every row already in the buffer,
  holds of every row of the buffer the loop returns.
\<close>

lemma write_runs_all:
  assumes "\<And>j t. P (mk j t)" and "\<forall>r\<in>set out. P r"
  shows "\<forall>r\<in>set (write_runs mk i rs out). P r"
  using assms(2)
proof (induction rs arbitrary: i out)
  case Nil
  then show ?case by simp
next
  case (Cons r rs)
  let ?out = "if strip (run_text r) \<noteq> [] then out @ [mk i (strip (run_text r))] else out"
  have "\<forall>x\<in>set ?out. P x" using Cons.prems assms(1) by simp
  from Cons.IH [OF this] show ?case by simp
qed

lemma write_paragraphs_all:
  assumes "\<And>a j t. P (mk a j t)" and "\<forall>r\<in>set out. P r"
  shows "\<forall>r\<in>set (write_paragraphs mk i ps out). P r"
  using assms(2)
proof (induction ps arbitrary: i out)
  case Nil
  then show ?case by simp
next
  case (Cons p ps)
  have "\<forall>r\<in>set (write_runs (mk i) 0 (runs p) out). P r"
    by (rule write_runs_all) (simp_all add: assms(1) Cons.prems)
  then show ?case by (simp add: Cons.IH)
qed

lemma write_cells_all:
  assumes "\<And>c a j t. P (mk c a j t)" and "\<forall>r\<in>set out. P r"
  shows "\<forall>r\<in>set (write_cells mk i cs out). P r"
  using assms(2)
proof (induction cs arbitrary: i out)
  case Nil
  then show ?case by simp
next
  case (Cons c cs)
  have "\<forall>r\<in>set (write_paragraphs (mk i) 0 (paragraphs (cell_text_frame c)) out). P r"
    by (rule write_paragraphs_all) (simp_all add: assms(1) Cons.prems)
  then show ?case by (simp add: Cons.IH)
qed

lemma write_table_rows_all:
  assumes "\<And>r c a j t. P (mk r c a j t)" and "\<forall>r\<in>set out. P r"
  shows "\<forall>r\<in>set (write_table_rows mk i rs out). P r"
  using assms(2)
proof (induction rs arbitrary: i out)
  case Nil
  then show ?case by simp
next
  case (Cons r rs)
  have "\<forall>x\<in>set (write_cells (mk i) 0 (cells r) out). P x"
    by (rule write_cells_all) (simp_all add: assms(1) Cons.prems)
  then show ?case by (simp add: Cons.IH)
qed

lemma text_details_of_shape_all:
  assumes run: "text_details_of_shape E i sh out = Inr out'"
    and old: "\<forall>r\<in>set out. P r"
    and new: "is_line E sh = Inr False \<Longrightarrow>
       (\<forall>a j t. P (frame_row i (shape_id sh) a j t))
       \<and> (\<forall>r c a j t. P (cell_row i (shape_id sh) r c a j t))"
  shows "\<forall>r\<in>set out'. P r"
proof -
  from run obtain skip where skip: "is_line E sh = Inr skip"
    by (auto simp: text_details_of_shape_def and_then_eq_Inr)
  show ?thesis
  proof (cases skip)
    case True
    with run skip old show ?thesis by (simp add: text_details_of_shape_def)
  next
    case False
    with run skip obtain out1 is_tbl where
      o1: "(if has_text_frame sh
              then and_then (text_frame sh) (\<lambda>tf.
                     Inr (write_paragraphs (frame_row i (shape_id sh)) 0 (paragraphs tf) out))
              else Inr out) = Inr out1"
      and o2: "(if is_tbl
              then and_then (table sh) (\<lambda>tb.
                     Inr (write_table_rows (cell_row i (shape_id sh)) 0 (rows tb) out1))
              else Inr out1) = Inr out'"
      by (auto simp: text_details_of_shape_def and_then_eq_Inr)
    from new skip False have
      f: "\<And>a j t. P (frame_row i (shape_id sh) a j t)"
      and c: "\<And>r c a j t. P (cell_row i (shape_id sh) r c a j t)"
      by simp_all
    have p1: "\<forall>r\<in>set out1. P r"
      using o1 old
        write_paragraphs_all [where P = P and mk = "frame_row i (shape_id sh)" and out = out,
          OF f old]
      by (cases "has_text_frame sh"; cases "text_frame sh") auto
    show ?thesis
      using o2 p1
        write_table_rows_all [where P = P and mk = "cell_row i (shape_id sh)" and out = out1,
          OF c p1]
      by (cases is_tbl; cases "table sh") auto
  qed
qed

lemma text_details_of_shapes_all:
  assumes "text_details_of_shapes E i shs out = Inr out'"
    and "\<forall>r\<in>set out. P r"
    and "\<And>sh. sh \<in> set shs \<Longrightarrow> is_line E sh = Inr False \<Longrightarrow>
       (\<forall>a j t. P (frame_row i (shape_id sh) a j t))
       \<and> (\<forall>r c a j t. P (cell_row i (shape_id sh) r c a j t))"
  shows "\<forall>r\<in>set out'. P r"
  using assms
proof (induction shs arbitrary: out)
  case Nil
  then show ?case by simp
next
  case (Cons sh shs)
  from Cons.prems(1) obtain mid where m: "text_details_of_shape E i sh out = Inr mid"
    and r: "text_details_of_shapes E i shs mid = Inr out'"
    by (auto simp: and_then_eq_Inr)
  have "\<forall>r\<in>set mid. P r"
    using m Cons.prems(2) by (rule text_details_of_shape_all) (simp add: Cons.prems(3))
  with r show ?case by (rule Cons.IH) (simp add: Cons.prems(3))
qed

lemma text_details_of_slides_all:
  assumes "text_details_of_slides E i ss out = Inr out'"
    and "\<forall>r\<in>set out. P r"
    and "\<And>k sh. k < length ss \<Longrightarrow> sh \<in> set (shapes (ss ! k)) \<Longrightarrow> is_line E sh = Inr False \<Longrightarrow>
       (\<forall>a j t. P (frame_row (i + k) (shape_id sh) a j t))
       \<and> (\<forall>r c a j t. P (cell_row (i + k) (shape_id sh) r c a j t))"
  shows "\<forall>r\<in>set out'. P r"
  using assms
proof (induction ss arbitrary: i out)
  case Nil
  then show ?case by simp
next
  case (Cons s ss)
  from Cons.prems(1) obtain mid where m: "text_details_of_shapes E i (shapes s) out = Inr mid"
    and r: "text_details_of_slides E (Suc i) ss mid = Inr out'"
    by (auto simp: and_then_eq_Inr)
  have "\<forall>r\<in>set mid. P r"
    using m Cons.prems(2)
  proof (rule text_details_of_shapes_all)
    fix sh
    assume "sh \<in> set (shapes s)" "is_line E sh = Inr False"
    then show "(\<forall>a j t. P (frame_row i (shape_id sh) a j t))
       \<and> (\<forall>r c a j t. P (cell_row i (shape_id sh) r c a j t))"
      using Cons.prems(3) [of 0 sh] by simp
  qed
  with r show ?case
  proof (rule Cons.IH)
    fix k sh
    assume "k < length ss" "sh \<in> set (shapes (ss ! k))" "is_line E sh = Inr False"
    then show "(\<forall>a j t. P (frame_row (Suc i + k) (shape_id sh) a j t))
       \<and> (\<forall>r c a j t. P (cell_row (Suc i + k) (shape_id sh) r c a j t))"
      using Cons.prems(3) [of "Suc k" sh] by simp
  qed
qed

lemma text_rows_from_non_connectors:
  assumes "generate_text_details_tsv E (Inr prs) = Some out"
  shows "\<forall>row\<in>set out. row = map VStr text_headers \<or> from_non_connector E prs row"
proof -
  from assms have w: "text_details_of_slides E 0 (slides prs) [map VStr text_headers] = Inr out"
    by (simp add: generate_text_details_tsv_def split: sum.splits)
  show ?thesis
    using w
  proof (rule text_details_of_slides_all)
    show "\<forall>r\<in>set [map VStr text_headers].
        r = map VStr text_headers \<or> from_non_connector E prs r"
      by simp
  next
    fix k sh
    assume "k < length (slides prs)" "sh \<in> set (shapes (slides prs ! k))"
      "is_line E sh = Inr False"
    then have "from_non_connector E prs (frame_row k (shape_id sh) a j t)"
      "from_non_connector E prs (cell_row k (shape_id sh) r c a j t)" for a j t r c
      by (auto simp: from_non_connector_def frame_row_def cell_row_def)
    then show "(\<forall>a j t. frame_row (0 + k) (shape_id sh) a j t = map VStr text_headers
            \<or> from_non_connector E prs (frame_row (0 + k) (shape_id sh) a j t))
       \<and> (\<forall>r c a j t. cell_row (0 + k) (shape_id sh) r c a j t = map VStr text_headers
            \<or> from_non_connector E prs (cell_row (0 + k) (shape_id sh) r c a j t))"
      by simp
  qed
qed

text \<open>The same for the dictionaries the shape-summary extractor collects.\<close>

lemma shape_details_row:
  assumes "shape_details E i sh = Inr d"
  shows "\<exists>ts col x y w h body.
           shape_type_str E sh = Inr ts \<and> get_shape_fill_color_info E sh = Inr col
           \<and> get_all_text_from_shape E sh = Inr body
           \<and> dict_row csv_headers d =
               [VInt (int i), VInt (shape_id sh), VStr (name_or_default (name sh)),
                VStr ts, VStr col, x, y, w, h, VStr body]"
proof -
  from assms obtain ts col x y w h body where
    a: "shape_type_str E sh = Inr ts" "get_shape_fill_color_info E sh = Inr col"
      "get_all_text_from_shape E sh = Inr body"
    and d: "d = [(''slide_index'', VInt (int i)), (''shape_id'', VInt (shape_id sh)),
            (''shape_name'', VStr (name_or_default (name sh))),
            (''shape_type'', VStr ts), (''color'', VStr col),
            (''x_coordinate_emu'', x), (''y_coordinate_emu'', y),
            (''width_emu'', w), (''height_emu'', h), (''text'', VStr body)]"
    unfolding shape_details_def and_then_eq_Inr by blast
  have "dict_row csv_headers d =
      [VInt (int i), VInt (shape_id sh), VStr (name_or_default (name sh)),
       VStr ts, VStr col, x, y, w, h, VStr body]"
    unfolding d by (simp add: dict_row_def csv_headers_def)
  with a show ?thesis by blast
qed

lemma shape_details_of_shapes_all:
  assumes "shape_details_of_shapes E i shs lst = Inr lst'"
    and "\<forall>d\<in>set lst. P d"
    and "\<And>sh d. sh \<in> set shs \<Longrightarrow> is_line E sh = Inr False \<Longrightarrow>
           shape_details E i sh = Inr d \<Longrightarrow> P d"
  shows "\<forall>d\<in>set lst'. P d"
  using assms
proof (induction shs arbitrary: lst)
  case Nil
  then show ?case by simp
next
  case (Cons sh shs)
  from Cons.prems(1) obtain skip where skip: "is_line E sh = Inr skip"
    by (auto simp: and_then_eq_Inr)
  show ?case
  proof (cases skip)
    case True
    with Cons.prems(1) skip have "shape_details_of_shapes E i shs lst = Inr lst'" by simp
    then show ?thesis using Cons.prems(2)
    proof (rule Cons.IH)
      fix x d
      assume "x \<in> set shs" "is_line E x = Inr False" "shape_details E i x = Inr d"
      then show "P d" using Cons.prems(3) [of x d] by simp
    qed
  next
    case False
    with Cons.prems(1) skip obtain d where d: "shape_details E i sh = Inr d"
      and r: "shape_details_of_shapes E i shs (lst @ [d]) = Inr lst'"
      by (auto simp: and_then_eq_Inr)
    have "P d" using skip False d Cons.prems(3) [of sh d] by simp
    with Cons.prems(2) have "\<forall>x\<in>set (lst @ [d]). P x" by simp
    with r show ?thesis
    proof (rule Cons.IH)
      fix x d
      assume "x \<in> set shs" "is_line E x = Inr False" "shape_details E i x = Inr d"
      then show "P d" using Cons.prems(3) [of x d] by simp
    qed
  qed
qed

lemma shape_details_of_slides_all:
  assumes "shape_details_of_slides E i ss lst = Inr lst'"
    and "\<forall>d\<in>set lst. P d"
    and "\<And>k sh d. k < length ss \<Longrightarrow> sh \<in> set (shapes (ss ! k)) \<Longrightarrow>
           is_line E sh = Inr False \<Longrightarrow> shape_details E (i + k) sh = Inr d \<Longrightarrow> P d"
  shows "\<forall>d\<in>set lst'. P d"
  using assms
proof (induction ss arbitrary: i lst)
  case Nil
  then show ?case by simp
next
  case (Cons s ss)
  from Cons.prems(1) obtain mid where
    m: "shape_details_of_shapes E i (shapes s) lst = Inr mid"
    and r: "shape_details_of_slides E (Suc i) ss mid = Inr lst'"
    by (auto simp: and_then_eq_Inr)
  have "\<forall>d\<in>set mid. P d"
    using m Cons.prems(2)
  proof (rule shape_details_of_shapes_all)
    fix sh d
    assume "sh \<in> set (shapes s)" "is_line E sh = Inr False" "shape_details E i sh = Inr d"
    then show "P d" using Cons.prems(3) [of 0 sh d] by simp
  qed
  with r show ?case
  proof (rule Cons.IH)
    fix k sh d
    assume "k < length ss" "sh \<in> set (shapes (ss ! k))" "is_line E sh = Inr False"
      "shape_details E (Suc i + k) sh = Inr d"
    then show "P d" using Cons.prems(3) [of "Suc k" sh d] by simp
  qed
qed

lemma summary_rows_all:
  assumes run: "generate_combined_shape_details_tsv E (Inr prs) = Some out"
    and hdr: "P (map VStr csv_headers)"
    and new: "\<And>k sh d. k < length (slides prs) \<Longrightarrow> sh \<in> set (shapes (slides prs ! k)) \<Longrightarrow>
           is_line E sh = Inr False \<Longrightarrow> shape_details E k sh = Inr d \<Longrightarrow>
           P (dict_row csv_headers d)"
  shows "\<forall>row\<in>set out. P row"
proof -
  from run obtain lst where w: "shape_details_of_slides E 0 (slides prs) [] = Inr lst"
    and out: "out = map VStr csv_headers # map (dict_row csv_headers) lst"
    by (cases "shape_details_of_slides E 0 (slides prs) []")
       (auto simp: generate_combined_shape_details_tsv_def)
  have "\<forall>d\<in>set lst. P (dict_row csv_headers d)"
    using w
  proof (rule shape_details_of_slides_all)
    show "\<forall>d\<in>set []. P (dict_row csv_headers d)" by simp
  next
    fix k sh d
    assume "k < length (slides prs)" "sh \<in> set (shapes (slides prs ! k))"
      "is_line E sh = Inr False" "shape_details E (0 + k) sh = Inr d"
    then show "P (dict_row csv_headers d)" using new [of k sh d] by simp
  qed
  with hdr show ?thesis by (simp add: out)
qed

lemma summary_rows_from_non_connectors:
  assumes "generate_combined_shape_details_tsv E (Inr prs) = Some out"
  shows "\<forall>row\<in>set out. row = map VStr csv_headers \<or> from_non_connector E prs row"
  using assms
proof (rule summary_rows_all)
  show "map VStr csv_headers = map VStr csv_headers
      \<or> from_non_connector E prs (map VStr csv_headers)"
    by simp
next
  fix k sh d
  assume k: "k < length (slides prs)" "sh \<in> set (shapes (slides prs ! k))"
    "is_line E sh = Inr False" and d: "shape_details E k sh = Inr d"
  from shape_details_row [OF d] have "dict_row csv_headers d ! 0 = VInt (int k)"
    "dict_row csv_headers d ! 1 = VInt (shape_id sh)"
    by auto
  with k have "from_non_connector E prs (dict_row csv_headers d)"
    unfolding from_non_connector_def by blast
  then show "dict_row csv_headers d = map VStr csv_headers
      \<or> from_non_connector E prs (dict_row csv_headers d)"
    by simp
qed

lemma not_the_connector:
  assumes "from_non_connector E prs row"
    and "k < length (slides prs)" and "c \<in> set (shapes (slides prs ! k))"
    and "is_line E c = Inr True"
    and "distinct (map shape_id (shapes (slides prs ! k)))"
  shows "\<not> (row ! 0 = VInt (int k) \<and> row ! 1 = VInt (shape_id c))"
proof
  assume r: "row ! 0 = VInt (int k) \<and> row ! 1 = VInt (shape_id c)"
  from assms(1) obtain k' sh where s: "k' < length (slides prs)"
    "sh \<in> set (shapes (slides prs ! k'))" "is_line E sh = Inr False"
    "row ! 0 = VInt (int k')" "row ! 1 = VInt (shape_id sh)"
    unfolding from_non_connector_def by blast
  from r s have "k' = k" "shape_id sh = shape_id c" by simp_all
  moreover have "inj_on shape_id (set (shapes (slides prs ! k)))"
    using assms(5) by (simp add: distinct_map)
  ultimately have "sh = c" using s(2) assms(3) by (auto dest: inj_onD)
  with s(3) assms(4) show False by simp
qed

lemma header_first_column:
  "map VStr text_headers ! 0 \<noteq> VInt n" "map VStr csv_headers ! 0 \<noteq> VInt n"
  by (simp_all add: text_headers_def csv_headers_def)

text \<open>
  Claim C6, amended. Every row of either report, the header apart, comes from a shape
  that is not a connector: its first two columns are the index of a slide and the
  identifier of a shape on that slide that the connector test lets through. Where the
  identifiers are distinct within a slide, no row carries the slide index and the
  identifier of a connector of that slide.
\<close>

theorem connectors_are_skipped:
  "(generate_text_details_tsv E (Inr prs) = Some out \<longrightarrow>
      (\<forall>row\<in>set out. row = map VStr text_headers \<or> from_non_connector E prs row))
   \<and> (generate_combined_shape_details_tsv E (Inr prs) = Some out2 \<longrightarrow>
      (\<forall>row\<in>set out2. row = map VStr csv_headers \<or> from_non_connector E prs row))
   \<and> (k < length (slides prs) \<and> c \<in> set (shapes (slides prs ! k))
       \<and> is_line E c = Inr True \<and> distinct (map shape_id (shapes (slides prs ! k))) \<longrightarrow>
      (generate_text_details_tsv E (Inr prs) = Some out \<longrightarrow>
         (\<forall>row\<in>set out. \<not> (row ! 0 = VInt (int k) \<and> row ! 1 = VInt (shape_id c))))
      \<and> (generate_combined_shape_details_tsv E (Inr prs) = Some out2 \<longrightarrow>
         (\<forall>row\<in>set out2. \<not> (row ! 0 = VInt (int k) \<and> row ! 1 = VInt (shape_id c)))))"
proof (intro conjI impI ballI)
  fix row
  assume "generate_text_details_tsv E (Inr prs) = Some out" "row \<in> set out"
  then show "row = map VStr text_headers \<or> from_non_connector E prs row"
    using text_rows_from_non_connectors by blast
next
  fix row
  assume "generate_combined_shape_details_tsv E (Inr prs) = Some out2" "row \<in> set out2"
  then show "row = map VStr csv_headers \<or> from_non_connector E prs row"
    using summary_rows_from_non_connectors by blast
next
  fix row
  assume c: "k < length (slides prs) \<and> c \<in> set (shapes (slides prs ! k))
       \<and> is_line E c = Inr True \<and> distinct (map shape_id (shapes (slides prs ! k)))"
    and "generate_text_details_tsv E (Inr prs) = Some out" "row \<in> set out"
  then have "row = map VStr text_headers \<or> from_non_connector E prs row"
    using text_rows_from_non_connectors by blast
  then show "\<not> (row ! 0 = VInt (int k) \<and> row ! 1 = VInt (shape_id c))"
    using c not_the_connector [of E prs row k c] header_first_column(1) [of "int k"]
    by auto
next
  fix row
  assume c: "k < length (slides prs) \<and> c \<in> set (shapes (slides prs ! k))
       \<and> is_line E c = Inr True \<and> distinct (map shape_id (shapes (slides prs ! k)))"
    and "generate_combined_shape_details_tsv E (Inr prs) = Some out2" "row \<in> set out2"
  then have "row = map VStr csv_headers \<or> from_non_connector E prs row"
    using summary_rows_from_non_connectors by blast
  then show "\<not> (row ! 0 = VInt (int k) \<and> row ! 1 = VInt (shape_id c))"
    using c not_the_connector [of E prs row k c] header_first_column(2) [of "int k"]
    by auto
qed

section \<open>The shape-summary extractor on the example shapes\<close>

lemma emu_zero: "emu_or_na (Inr (Some 0)) = Inr (VInt 0)"
  by (simp add: emu_or_na_def)

lemma MSO_more:
  "has_member MSO_SHAPE_TYPE ''CHART''" "map_of MSO_SHAPE_TYPE ''CHART'' = Some 3"
  "\<not> has_member MSO_SHAPE_TYPE ''GRAPHIC_FRAME''"
  by (simp_all add: has_member_def MSO_SHAPE_TYPE_def)

lemma MSO_find:
  "find (\<lambda>m. snd m = 17) MSO_SHAPE_TYPE = Some (''TEXT_BOX'', 17)"
  "find (\<lambda>m. snd m = 13) MSO_SHAPE_TYPE = Some (''PICTURE'', 13)"
  "find (\<lambda>m. snd m = 99) MSO_SHAPE_TYPE = None"
  by (simp_all add: MSO_SHAPE_TYPE_def)


lemma shape_type_str_readable:
  assumes "shape_type sh = Inr (Some k)"
  shows "shape_type_str E sh =
     Inr (case find (\<lambda>m. snd m = k) E of
            Some m \<Rightarrow> fst m
          | None \<Rightarrow> ''Unknown ('' @ str_int k @ '')'')"
  using assms
  by (cases "find (\<lambda>m. snd m = k) E") (simp_all add: shape_type_str_def py_format_kind_def)

lemma bare_fields:
  "shape_type (bare_shape i k) = k" "fill (bare_shape i k) = Inl AttributeError"
  "shape_id (bare_shape i k) = i" "\<not> has_text_frame (bare_shape i k)"
  "name (bare_shape i k) = Some ''Shape''"
  "shape_left (bare_shape i k) = Inr (Some 0)" "shape_top (bare_shape i k) = Inr (Some 0)"
  "shape_width (bare_shape i k) = Inr (Some 0)" "shape_height (bare_shape i k) = Inr (Some 0)"
  by (simp_all add: bare_shape_def)

lemma text_box_details:
  "shape_details MSO_SHAPE_TYPE slide_idx (text_box i ''x'') =
     Inr [(''slide_index'', VInt (int slide_idx)), (''shape_id'', VInt i),
          (''shape_name'', VStr ''Shape''), (''shape_type'', VStr ''TEXT_BOX''),
          (''color'', VStr ''Fill Attribute Missing / Other Type''),
          (''x_coordinate_emu'', VInt 0), (''y_coordinate_emu'', VInt 0),
          (''width_emu'', VInt 0), (''height_emu'', VInt 0), (''text'', VStr ''x'')]"
proof -
  have f: "fill (text_box i ''x'') = Inl AttributeError" "name (text_box i ''x'') = Some ''Shape''"
    "shape_left (text_box i ''x'') = Inr (Some 0)" "shape_top (text_box i ''x'') = Inr (Some 0)"
    "shape_width (text_box i ''x'') = Inr (Some 0)"
    "shape_height (text_box i ''x'') = Inr (Some 0)"
    by (simp_all add: text_box_def bare_shape_def)
  have ts: "shape_type_str MSO_SHAPE_TYPE (text_box i ''x'') = Inr ''TEXT_BOX''"
    by (simp add: shape_type_str_readable [OF text_box_fields(1)] MSO_find)
  have col: "get_shape_fill_color_info MSO_SHAPE_TYPE (text_box i ''x'') =
      Inr ''Fill Attribute Missing / Other Type''"
    using classifier_without_fill [OF f(1) text_box_fields(1), of MSO_SHAPE_TYPE]
    by (simp add: MSO_members MSO_more)
  have tx: "get_all_text_from_shape MSO_SHAPE_TYPE (text_box i ''x'') = Inr ''x''"
    by (simp add: get_all_text_from_shape_def shape_text_parts_def text_box_fields
        text_box_kind one_run_paragraph_def strip_examples)
  show ?thesis
    unfolding shape_details_def ts col tx f emu_zero
    by (simp add: text_box_fields name_or_default_def)
qed

lemma bare_details:
  assumes "k \<noteq> 19" "k \<noteq> 3" "k \<noteq> 6"
  shows "shape_details MSO_SHAPE_TYPE slide_idx ((bare_shape i (Inr (Some k)))\<lparr>name := n\<rparr>) =
     Inr [(''slide_index'', VInt (int slide_idx)), (''shape_id'', VInt i),
          (''shape_name'', VStr (name_or_default n)),
          (''shape_type'',
             VStr (case find (\<lambda>m. snd m = k) MSO_SHAPE_TYPE of
                     Some m \<Rightarrow> fst m
                   | None \<Rightarrow> ''Unknown ('' @ str_int k @ '')'')),
          (''color'', VStr ''Fill Attribute Missing / Other Type''),
          (''x_coordinate_emu'', VInt 0), (''y_coordinate_emu'', VInt 0),
          (''width_emu'', VInt 0), (''height_emu'', VInt 0), (''text'', VStr [])]"
proof -
  let ?sh = "(bare_shape i (Inr (Some k)))\<lparr>name := n\<rparr>"
  have f: "fill ?sh = Inl AttributeError" "shape_type ?sh = Inr (Some k)"
    "shape_left ?sh = Inr (Some 0)" "shape_top ?sh = Inr (Some 0)"
    "shape_width ?sh = Inr (Some 0)" "shape_height ?sh = Inr (Some 0)"
    "name ?sh = n" "shape_id ?sh = i" "\<not> has_text_frame ?sh"
    by (simp_all add: bare_shape_def)
  have ts: "shape_type_str MSO_SHAPE_TYPE ?sh =
      Inr (case find (\<lambda>m. snd m = k) MSO_SHAPE_TYPE of
             Some m \<Rightarrow> fst m
           | None \<Rightarrow> ''Unknown ('' @ str_int k @ '')'')"
    by (rule shape_type_str_readable [OF f(2)])
  have col: "get_shape_fill_color_info MSO_SHAPE_TYPE ?sh =
      Inr ''Fill Attribute Missing / Other Type''"
    using classifier_without_fill [OF f(1) f(2), of MSO_SHAPE_TYPE] assms
    by (simp add: MSO_members MSO_more)
  have tb: "is_table MSO_SHAPE_TYPE ?sh = Inr False"
    using assms by (simp add: is_table_readable [OF f(2)] MSO_members)
  have tx: "get_all_text_from_shape MSO_SHAPE_TYPE ?sh = Inr []"
    by (simp add: get_all_text_from_shape_def shape_text_parts_def f(9) tb)
  show ?thesis
    unfolding shape_details_def ts col tx f emu_zero by simp
qed

lemma two_slides_summary:
  "generate_combined_shape_details_tsv MSO_SHAPE_TYPE (Inr two_slides) =
     Some [map VStr csv_headers,
           [VInt 1, VInt 2, VStr ''Shape'', VStr ''TEXT_BOX'',
            VStr ''Fill Attribute Missing / Other Type'',
            VInt 0, VInt 0, VInt 0, VInt 0, VStr ''x'']]"
proof -
  have "shape_details_of_slides MSO_SHAPE_TYPE 0 (slides two_slides) [] =
      Inr [[(''slide_index'', VInt 1), (''shape_id'', VInt 2),
          (''shape_name'', VStr ''Shape''), (''shape_type'', VStr ''TEXT_BOX''),
          (''color'', VStr ''Fill Attribute Missing / Other Type''),
          (''x_coordinate_emu'', VInt 0), (''y_coordinate_emu'', VInt 0),
          (''width_emu'', VInt 0), (''height_emu'', VInt 0), (''text'', VStr ''x'')]]"
    using text_box_details [of "Suc 0" 2]
    by (simp add: two_slides_def connector_kind text_box_kind)
  then show ?thesis
    unfolding generate_combined_shape_details_tsv_def
    by (simp add: dict_row_def csv_headers_def)
qed

text \<open>
  Claim C6 as stated fails: identifiers are unique within a slide only. The connector
  on slide 0 has the identifier 2, and so has the text box on slide 1, whose rows both
  reports hold.
\<close>

theorem connector_id_reused_counterexample:
  "bare_shape 2 (Inr (Some 9)) \<in> set (shapes (slides two_slides ! 0))
   \<and> is_line MSO_SHAPE_TYPE (bare_shape 2 (Inr (Some 9))) = Inr True
   \<and> shape_id (bare_shape 2 (Inr (Some 9))) = 2
   \<and> generate_text_details_tsv MSO_SHAPE_TYPE (Inr two_slides) =
       Some [map VStr text_headers,
             [VInt 1, VInt 2, VBool False, VNone, VNone, VInt 0, VInt 0, VStr ''x'']]
   \<and> generate_combined_shape_details_tsv MSO_SHAPE_TYPE (Inr two_slides) =
       Some [map VStr csv_headers,
             [VInt 1, VInt 2, VStr ''Shape'', VStr ''TEXT_BOX'',
              VStr ''Fill Attribute Missing / Other Type'',
              VInt 0, VInt 0, VInt 0, VInt 0, VStr ''x'']]"
  using two_slides_text two_slides_summary connector_kind [of 2]
  by (simp add: two_slides_def bare_fields)

theorem connectors_are_skipped_witness:
  "generate_text_details_tsv MSO_SHAPE_TYPE (Inr two_slides) =
       Some [map VStr text_headers,
             [VInt 1, VInt 2, VBool False, VNone, VNone, VInt 0, VInt 0, VStr ''x'']]
   \<and> from_non_connector MSO_SHAPE_TYPE two_slides
         [VInt 1, VInt 2, VBool False, VNone, VNone, VInt 0, VInt 0, VStr ''x'']
   \<and> \<not> ([VInt 1, VInt 2, VBool False, VNone, VNone, VInt 0, VInt 0, VStr ''x''] ! 0 = VInt 0
         \<and> [VInt 1, VInt 2, VBool False, VNone, VNone, VInt 0, VInt 0, VStr ''x''] ! 1
             = VInt 2)"
proof -
  let ?c = "bare_shape 2 (Inr (Some 9))"
  let ?row = "[VInt 1, VInt 2, VBool False, VNone, VNone, VInt 0, VInt 0, VStr ''x'']"
  let ?out = "[map VStr text_headers, ?row]"
  note T = connectors_are_skipped [of MSO_SHAPE_TYPE two_slides ?out _ 0 ?c]
  have h: "0 < length (slides two_slides) \<and> ?c \<in> set (shapes (slides two_slides ! 0))
       \<and> is_line MSO_SHAPE_TYPE ?c = Inr True
       \<and> distinct (map shape_id (shapes (slides two_slides ! 0)))"
    using connector_kind [of 2] by (simp add: two_slides_def)
  have a: "\<forall>row\<in>set ?out. \<not> (row ! 0 = VInt (int 0) \<and> row ! 1 = VInt (shape_id ?c))"
    by (rule T [THEN conjunct2, THEN conjunct2, THEN mp, OF h, THEN conjunct1, THEN mp,
          OF two_slides_text])
  have b: "\<forall>row\<in>set ?out. row = map VStr text_headers
      \<or> from_non_connector MSO_SHAPE_TYPE two_slides row"
    by (rule T [THEN conjunct1, THEN mp, OF two_slides_text])
  have m: "?row \<in> set ?out" by simp
  have n: "?row \<noteq> map VStr text_headers" by (simp add: text_headers_def)
  from bspec [OF b m] n have b': "from_non_connector MSO_SHAPE_TYPE two_slides ?row"
    by blast
  from bspec [OF a m] have a': "\<not> (?row ! 0 = VInt 0 \<and> ?row ! 1 = VInt 2)"
    by (simp add: bare_fields)
  from two_slides_text b' a' show ?thesis by (intro conjI)
qed

section \<open>The columns of the shape summary\<close>






lemma name_or_default_not_Nil: "name_or_default n \<noteq> []"
  by (simp add: name_or_default_def split: option.splits)

text \<open>
  Claim C10. A shape whose name is the empty string gets \<^verbatim>\<open>Unnamed Shape\<close> in the
  \<^verbatim>\<open>shape_name\<close> column, and no row of the shape-summary report, the header
  included, has the empty string in that column.
\<close>

theorem shape_name_never_empty:
  "(shape_details E slide_idx sh = Inr d \<and> name sh = Some [] \<longrightarrow>
      dict_row csv_headers d ! 2 = VStr ''Unnamed Shape'')
   \<and> (generate_combined_shape_details_tsv E uploaded_file = Some out \<longrightarrow>
      (\<forall>row\<in>set out. row ! 2 \<noteq> VStr []))"
proof (intro conjI impI)
  assume "shape_details E slide_idx sh = Inr d \<and> name sh = Some []"
  then show "dict_row csv_headers d ! 2 = VStr ''Unnamed Shape''"
    using shape_details_row [of E slide_idx sh d] by (auto simp: name_or_default_def)
next
  assume run: "generate_combined_shape_details_tsv E uploaded_file = Some out"
  then obtain prs where f: "uploaded_file = Inr prs"
    by (cases uploaded_file) (simp_all add: generate_combined_shape_details_tsv_def)
  from run [unfolded f] show "\<forall>row\<in>set out. row ! 2 \<noteq> VStr []"
  proof (rule summary_rows_all)
    show "map VStr csv_headers ! 2 \<noteq> VStr []" by (simp add: csv_headers_def)
  next
    fix k sh d
    assume "shape_details E k sh = Inr d"
    from shape_details_row [OF this] show "dict_row csv_headers d ! 2 \<noteq> VStr []"
      by (auto simp: name_or_default_not_Nil)
  qed
qed

theorem shape_name_never_empty_witness:
  "generate_combined_shape_details_tsv MSO_SHAPE_TYPE
       (Inr \<lparr>slides = [\<lparr>shapes = [(bare_shape 1 (Inr (Some 13)))\<lparr>name := Some []\<rparr>]\<rparr>]\<rparr>) =
     Some [map VStr csv_headers,
           [VInt 0, VInt 1, VStr ''Unnamed Shape'', VStr ''PICTURE'',
            VStr ''Fill Attribute Missing / Other Type'',
            VInt 0, VInt 0, VInt 0, VInt 0, VStr []]]
   \<and> [VInt 0, VInt 1, VStr ''Unnamed Shape'', VStr ''PICTURE'',
        VStr ''Fill Attribute Missing / Other Type'',
        VInt 0, VInt 0, VInt 0, VInt 0, VStr []] ! 2 \<noteq> VStr []"
proof -
  let ?sh = "(bare_shape 1 (Inr (Some 13)))\<lparr>name := Some []\<rparr>"
  let ?f = "Inr \<lparr>slides = [\<lparr>shapes = [?sh]\<rparr>]\<rparr> :: uploaded_file"
  let ?row = "[VInt 0, VInt 1, VStr ''Unnamed Shape'', VStr ''PICTURE'',
            VStr ''Fill Attribute Missing / Other Type'',
            VInt 0, VInt 0, VInt 0, VInt 0, VStr []]"
  let ?out = "[map VStr csv_headers, ?row]"
  have k: "shape_type ?sh = Inr (Some 13)" by (simp add: bare_shape_def)
  have l: "is_line MSO_SHAPE_TYPE ?sh = Inr False"
    by (simp add: is_line_readable [OF k] MSO_members)
  have run: "generate_combined_shape_details_tsv MSO_SHAPE_TYPE ?f = Some ?out"
    using bare_details [where k = 13 and slide_idx = 0 and i = 1 and n = "Some []"] l
    by (simp add: generate_combined_shape_details_tsv_def MSO_find name_or_default_def
        dict_row_def csv_headers_def)
  have all: "\<forall>row\<in>set ?out. row ! 2 \<noteq> VStr []"
    by (rule shape_name_never_empty [of MSO_SHAPE_TYPE 0 ?sh "[]" ?f ?out,
          THEN conjunct2, THEN mp, OF run])
  have "?row \<in> set ?out" by simp
  from bspec [OF all this] have "?row ! 2 \<noteq> VStr []" .
  with run show ?thesis by (intro conjI)
qed

end
